theory Spec2Isabelle
  imports Complex_Main "HOL-Library.Sublist" "HOL-Library.Multiset"
begin

section \<open>Text and character classes\<close>

text \<open>
  A Python \<open>str\<close> is modelled as a \<open>string\<close>, one \<open>char\<close> per code point. A \<open>char\<close>
  has eight bits, so the model covers the texts whose code points lie below 256
  (ASCII and Latin-1); \<open>of_char\<close> gives the code point. The Unicode-aware classes of
  Python (\<open>str.isspace\<close>, \<open>\s\<close>, \<open>\d\<close>, \<open>\w\<close>, \<open>str.lower\<close>) are written out for
  that range.
\<close>

definition isspace :: "char \<Rightarrow> bool" where
  \<comment> \<open>\<open>str.isspace\<close> and \<open>\s\<close>: TAB, LF, VT, FF, CR, FS, GS, RS, US, space, NEL, NBSP\<close>
  "isspace c = (let n = (of_char c :: nat) in
     (9 \<le> n \<and> n \<le> 13) \<or> (28 \<le> n \<and> n \<le> 32) \<or> n = 133 \<or> n = 160)"

definition isdecimal :: "char \<Rightarrow> bool" where
  \<comment> \<open>\<open>\d\<close>: the decimal digits\<close>
  "isdecimal c = (let n = (of_char c :: nat) in 48 \<le> n \<and> n \<le> 57)"

definition ascii_alpha :: "char \<Rightarrow> bool" where
  \<comment> \<open>\<open>[A-Za-z]\<close>\<close>
  "ascii_alpha c = (let n = (of_char c :: nat) in (65 \<le> n \<and> n \<le> 90) \<or> (97 \<le> n \<and> n \<le> 122))"

definition isalnum :: "char \<Rightarrow> bool" where
  \<comment> \<open>\<open>str.isalnum\<close>: letters, digits and the numeric characters of Latin-1\<close>
  "isalnum c = (let n = (of_char c :: nat) in
     isdecimal c \<or> ascii_alpha c \<or>
     n = 170 \<or> n = 178 \<or> n = 179 \<or> n = 181 \<or> n = 185 \<or> n = 186 \<or>
     (188 \<le> n \<and> n \<le> 190) \<or> (192 \<le> n \<and> n \<le> 214) \<or> (216 \<le> n \<and> n \<le> 246) \<or> 248 \<le> n)"

definition isword :: "char \<Rightarrow> bool" where
  \<comment> \<open>\<open>\w\<close>: alphanumeric or underscore\<close>
  "isword c = (isalnum c \<or> c = CHR ''_'')"

definition isupper :: "char \<Rightarrow> bool" where
  "isupper c = (let n = (of_char c :: nat) in
     (65 \<le> n \<and> n \<le> 90) \<or> (192 \<le> n \<and> n \<le> 222 \<and> n \<noteq> 215))"

definition lower_chr :: "char \<Rightarrow> char" where
  \<comment> \<open>\<open>str.lower\<close> on one character: an upper-case letter moves up by 32, which sets bit 5\<close>
  "lower_chr c =
     (if isupper c then (case c of Char b0 b1 b2 b3 b4 b5 b6 b7 \<Rightarrow> Char b0 b1 b2 b3 b4 True b6 b7)
      else c)"

section \<open>Regular expressions\<close>

text \<open>
  The patterns of the source are compiled by Python's \<open>re\<close>, a backtracking matcher. Its
  constructs that the source uses: literals (case-sensitive, or case-insensitive under
  \<open>re.IGNORECASE\<close>), character classes, the word boundary \<open>\b\<close>, concatenation, ordered
  alternation, and repetition \<open>{lo,hi}\<close>, greedy or lazy (\<open>hi = None\<close> is unbounded).
\<close>

datatype regex =
    Eps
  | Lit char
  | LitI char
  | Cls "char \<Rightarrow> bool"
  | WordB
  | Cat regex regex
  | Alt regex regex
  | Rep nat "nat option" bool regex

text \<open>
  A cursor is a position in the text: the character before it (none at the start) and the
  text from it on. The matcher is written with a continuation, which is what backtracking
  is: \<open>rm r k cont\<close> tries the ways \<open>r\<close> can match at \<open>k\<close> in the order of the engine
  (left alternative first; a greedy repetition tries one more round first, a lazy one
  tries to stop first) and returns the first result that the continuation accepts.
\<close>

type_synonym cursor = "char option \<times> string"

fun at_boundary :: "cursor \<Rightarrow> bool" where
  "at_boundary (p, s) =
     ((case p of None \<Rightarrow> False | Some c \<Rightarrow> isword c) \<noteq> (case s of [] \<Rightarrow> False | c # _ \<Rightarrow> isword c))"

fun step_chr :: "(char \<Rightarrow> bool) \<Rightarrow> cursor \<Rightarrow> (cursor \<Rightarrow> 'a option) \<Rightarrow> 'a option" where
  "step_chr P (p, []) cont = None"
| "step_chr P (p, c # cs) cont = (if P c then cont (Some c, cs) else None)"

fun rep :: "(cursor \<Rightarrow> (cursor \<Rightarrow> 'a option) \<Rightarrow> 'a option) \<Rightarrow> bool \<Rightarrow> nat \<Rightarrow> nat \<Rightarrow>
    cursor \<Rightarrow> (cursor \<Rightarrow> 'a option) \<Rightarrow> 'a option" where
  "rep f greedy lo 0 k cont = (if lo = 0 then cont k else None)"
| "rep f greedy lo (Suc hi) k cont =
     (if 0 < lo then f k (\<lambda>k'. rep f greedy (lo - 1) hi k' cont)
      else if greedy then
        (case f k (\<lambda>k'. rep f greedy 0 hi k' cont) of Some x \<Rightarrow> Some x | None \<Rightarrow> cont k)
      else
        (case cont k of Some x \<Rightarrow> Some x | None \<Rightarrow> f k (\<lambda>k'. rep f greedy 0 hi k' cont)))"

text \<open>
  An unbounded repetition gets the bound \<open>lo + length rest\<close>: every repeated body in the
  patterns below consumes at least one character, so no match needs more rounds.
\<close>

primrec rm :: "regex \<Rightarrow> cursor \<Rightarrow> (cursor \<Rightarrow> 'a option) \<Rightarrow> 'a option" where
  "rm Eps k cont = cont k"
| "rm (Lit c) k cont = step_chr (\<lambda>x. x = c) k cont"
| "rm (LitI c) k cont = step_chr (\<lambda>x. lower_chr x = lower_chr c) k cont"
| "rm (Cls P) k cont = step_chr P k cont"
| "rm WordB k cont = (if at_boundary k then cont k else None)"
| "rm (Cat a b) k cont = rm a k (\<lambda>k'. rm b k' cont)"
| "rm (Alt a b) k cont = (case rm a k cont of Some x \<Rightarrow> Some x | None \<Rightarrow> rm b k cont)"
| "rm (Rep lo hi greedy r) k cont =
     rep (rm r) greedy lo (case hi of None \<Rightarrow> lo + length (snd k) | Some h \<Rightarrow> h) k cont"

definition match_at :: "regex \<Rightarrow> cursor \<Rightarrow> cursor option" where
  \<comment> \<open>the end of the match the engine finds at this position, if any\<close>
  "match_at r k = rm r k Some"

fun search_from :: "regex \<Rightarrow> char option \<Rightarrow> string \<Rightarrow> bool" where
  "search_from r p [] = (match_at r (p, []) \<noteq> None)"
| "search_from r p (c # cs) =
     (if match_at r (p, c # cs) \<noteq> None then True else search_from r (Some c) cs)"

definition search :: "regex \<Rightarrow> string \<Rightarrow> bool" where
  \<comment> \<open>the truth value of \<open>pattern.search(text)\<close>: is there a match at some position\<close>
  "search r text = search_from r None text"

text \<open>
  \<open>pattern.finditer(text)\<close>, as the list of the spans \<open>(start, end)\<close> of its matches: the
  leftmost match, then the leftmost one that starts at or after its end, and so on.
  \<open>skip\<close> counts the characters still covered by the last match. (After an empty match
  the scan moves on by one character; no pattern below matches the empty string.)
\<close>

fun scan :: "regex \<Rightarrow> nat \<Rightarrow> nat \<Rightarrow> char option \<Rightarrow> string \<Rightarrow> (nat \<times> nat) list" where
  "scan r pos skip p [] =
     (if skip = 0 then (case match_at r (p, []) of None \<Rightarrow> [] | Some k \<Rightarrow> [(pos, pos)]) else [])"
| "scan r pos skip p (c # cs) =
     (if 0 < skip then scan r (Suc pos) (skip - 1) (Some c) cs
      else case match_at r (p, c # cs) of
             None \<Rightarrow> scan r (Suc pos) 0 (Some c) cs
           | Some k \<Rightarrow>
               (let n = Suc (length cs) - length (snd k)
                in (pos, pos + n) # scan r (Suc pos) (n - 1) (Some c) cs))"

definition finditer :: "regex \<Rightarrow> string \<Rightarrow> (nat \<times> nat) list" where
  "finditer r text = scan r 0 0 None text"

subsection \<open>Writing patterns\<close>

definition cat :: "regex list \<Rightarrow> regex" where
  "cat rs = foldr Cat rs Eps"

definition alt :: "regex list \<Rightarrow> regex" where
  \<comment> \<open>\<open>(a|b|c)\<close>\<close>
  "alt rs = foldr Alt (butlast rs) (last rs)"

definition str :: "string \<Rightarrow> regex" where
  "str s = cat (map Lit s)"

definition istr :: "string \<Rightarrow> regex" where
  \<comment> \<open>a literal under \<open>re.IGNORECASE\<close>\<close>
  "istr s = cat (map LitI s)"

definition ialt :: "string list \<Rightarrow> regex" where
  \<comment> \<open>\<open>(word|word|word)\<close> under \<open>re.IGNORECASE\<close>\<close>
  "ialt words = alt (map istr words)"

definition wsp :: regex where
  \<comment> \<open>\<open>\s\<close>\<close>
  "wsp = Cls isspace"

definition opt :: "regex \<Rightarrow> regex" where
  \<comment> \<open>\<open>r?\<close>\<close>
  "opt r = Rep 0 (Some 1) True r"

section \<open>Probabilities and tiers\<close>

text \<open>
  A probability is a Python \<open>float\<close>. The code never computes with one: it compares
  them and passes them on, so a float is modelled by its place in the order, a real
  number (the literal \<open>0.10\<close> is \<open>Fin (10 / 100)\<close>), an infinity, or NaN, which every
  comparison answers with \<open>False\<close>.
\<close>

datatype pyfloat = Fin real | PInf | NInf | NaN

fun fle :: "pyfloat \<Rightarrow> pyfloat \<Rightarrow> bool" where
  "fle NaN y = False"
| "fle x NaN = False"
| "fle NInf y = True"
| "fle x PInf = True"
| "fle (Fin a) (Fin b) = (a \<le> b)"
| "fle PInf y = False"
| "fle x NInf = False"

definition flt :: "pyfloat \<Rightarrow> pyfloat \<Rightarrow> bool" where
  "flt x y = (fle x y \<and> x \<noteq> y)"

text \<open>A tier is the string the source uses for it.\<close>

type_synonym tier = string

section \<open>The override rules (src/overrides.py)\<close>

subsection \<open>Blocklist categories\<close>

definition THREAT_PATTERNS :: "regex list" where
  "THREAT_PATTERNS =
     [cat [WordB, ialt [''i wish'', ''hope''], wsp, ialt [''you'', ''he'', ''she'', ''they''], wsp,
           ialt [''die'', ''dies'', ''died''], WordB],
      cat [WordB,
           alt [cat [istr ''kill'', wsp, istr ''your'', opt wsp, istr ''self''],
                cat [istr ''k'', opt wsp, istr ''y'', opt wsp, istr ''s'']],
           WordB]]"

definition OBSCENE_PATTERNS :: "regex list" where
  "OBSCENE_PATTERNS =
     [cat [WordB, ialt [''his'', ''my'', ''your''], wsp, ialt [''third'', ''3rd''], wsp, istr ''leg'', WordB]]"

definition INSULT_PATTERNS :: "regex list" where
  "INSULT_PATTERNS =
     [cat [WordB, ialt [''i wish'', ''hope''], wsp, ialt [''you'', ''he'', ''she'', ''they''], WordB,
           Rep 0 None False (Cls (\<lambda>c. c \<noteq> CHR 0x0A)), WordB,
           ialt [''humiliating'', ''fail'', ''suffer''], WordB],
      cat [WordB,
           ialt [''idiot'', ''moron'', ''stupid'', ''dumb'', ''loser'', ''pathetic'', ''bitch'', ''fuck''],
           WordB]]"

definition PASSIVE_AGGRESSIVE_PATTERNS :: "regex list" where
  "PASSIVE_AGGRESSIVE_PATTERNS =
     [cat [istr ''bless'', wsp, istr ''your'', wsp, opt (cat [istr ''little'', wsp]), istr ''heart''],
      cat [istr ''i'', LitI (CHR 0x27), istr ''m'', wsp, istr ''sure'', wsp, istr ''you'', wsp, istr ''think''],
      cat [istr ''must'', wsp, istr ''be'', wsp, istr ''nice'', wsp, istr ''to'', wsp, istr ''be'']]"

definition DOG_WHISTLE_PATTERNS :: "regex list" where
  \<comment> \<open>the first pattern is compiled without \<open>re.IGNORECASE\<close>\<close>
  "DOG_WHISTLE_PATTERNS =
     [cat [WordB, alt [str ''13/52'', str ''13/90''], WordB],
      cat [WordB, istr ''globalist'', wsp, istr ''agenda'', WordB]]"

definition GLORIFICATION_PATTERNS :: "regex list" where
  "GLORIFICATION_PATTERNS =
     [cat [WordB, istr ''got'', wsp, istr ''what'', wsp, ialt [''he'', ''she'', ''they''], wsp,
           istr ''deserved'', WordB],
      cat [WordB, istr ''is'', wsp, istr ''a'', wsp, istr ''hero'', wsp, istr ''for'', wsp, istr ''what'', wsp,
           ialt [''he'', ''she''], wsp, istr ''did'', WordB]]"

definition SUBTLE_THREAT_PATTERNS :: "regex list" where
  "SUBTLE_THREAT_PATTERNS =
     [cat [WordB, istr ''world'', wsp, istr ''would'', wsp, istr ''be'', wsp, istr ''better'', wsp,
           istr ''without'', wsp, istr ''you'', WordB],
      cat [WordB, istr ''nobody'', wsp, istr ''would'', wsp, istr ''even'', wsp, istr ''notice'', wsp,
           istr ''if'', wsp, istr ''you'', wsp, istr ''were'', wsp, istr ''gone'', WordB]]"

definition IDENTITY_ATTACK_PATTERNS :: "regex list" where
  "IDENTITY_ATTACK_PATTERNS =
     [cat [WordB, istr ''of'', wsp, istr ''course'', wsp, istr ''a'', wsp, ialt [''woman'', ''man''], wsp,
           istr ''would'', WordB],
      cat [WordB, istr ''typical'', wsp, ialt [''french'', ''american'', ''german'', ''etc''], wsp,
           istr ''behavior'', WordB]]"

definition SPAM_PATTERNS :: "regex list" where
  "SPAM_PATTERNS =
     [cat [WordB,
           alt [cat [istr ''free'', wsp, istr ''followers''], cat [istr ''buy'', wsp, istr ''follwers''],
                cat [istr ''crypto'', wsp, istr ''gains'']],
           WordB],
      alt [istr ''bit.ly/'', istr ''tinyurl.com/'']]"

definition BLOCKLIST_PATTERNS :: "regex list" where
  "BLOCKLIST_PATTERNS =
     THREAT_PATTERNS @ OBSCENE_PATTERNS @ INSULT_PATTERNS @
     PASSIVE_AGGRESSIVE_PATTERNS @ DOG_WHISTLE_PATTERNS @
     GLORIFICATION_PATTERNS @ SUBTLE_THREAT_PATTERNS @
     IDENTITY_ATTACK_PATTERNS @ SPAM_PATTERNS"

subsection \<open>Safelist categories\<close>

definition NEGATIVE_VERBS :: regex where
  "NEGATIVE_VERBS =
     ialt [''killed'', ''dead'', ''destroyed'', ''attacked'', ''shot'', ''poison'', ''cancer'', ''disease'']"

definition HARMLESS_OBJECTS :: regex where
  "HARMLESS_OBJECTS =
     ialt [''plant'', ''battery'', ''phone'', ''car'', ''game'', ''server'', ''computer'', ''process'',
           ''task'', ''job'', ''engine'', ''ui'', ''feature'', ''logic'']"

definition META_PATTERNS :: "regex list" where
  "META_PATTERNS =
     [cat [WordB,
           alt [cat [istr ''words'', wsp, istr ''like''], cat [istr ''the'', wsp, istr ''word''],
                istr ''saying''],
           wsp, ialt [''bitch'', ''fuck'', ''idiot'', ''stupid''], WordB]]"

definition GENERAL_SAFELIST_PATTERNS :: "regex list" where
  "GENERAL_SAFELIST_PATTERNS =
     [cat [WordB, opt (cat [istr ''my'', wsp]), NEGATIVE_VERBS, opt (cat [wsp, istr ''my'']), wsp,
           HARMLESS_OBJECTS, WordB],
      cat [WordB, opt (cat [istr ''the'', wsp]), HARMLESS_OBJECTS,
           opt (alt [cat [wsp, istr ''is''], cat [wsp, istr ''was'']]), wsp, ialt [''dead'', ''died''], WordB],
      cat [WordB, ialt [''kill the'', ''killing the''], wsp, ialt [''process'', ''job'', ''server'', ''task''],
           WordB],
      cat [WordB, ialt [''this'', ''your''], wsp, HARMLESS_OBJECTS, wsp,
           alt [istr ''is'', cat [istr ''is'', wsp, istr ''an'']], wsp,
           opt (cat [istr ''absolute'', wsp]), ialt [''cancer'', ''poison'', ''disease''], WordB]]"

definition SAFELIST_PATTERNS :: "regex list" where
  "SAFELIST_PATTERNS = META_PATTERNS @ GENERAL_SAFELIST_PATTERNS"

subsection \<open>The override function\<close>

text \<open>
  \<open>for pattern in PATTERNS: if pattern.search(text): return ...\<close> leaves the loop at the
  first pattern that matches.
\<close>

fun any_search :: "regex list \<Rightarrow> string \<Rightarrow> bool" where
  "any_search [] text = False"
| "any_search (pattern # rest) text = (if search pattern text then True else any_search rest text)"

definition apply_overrides :: "string \<Rightarrow> pyfloat \<Rightarrow> tier \<Rightarrow> pyfloat \<times> tier" where
  "apply_overrides text original_prob original_tier =
     (if any_search META_PATTERNS text then (Fin (1 / 100), ''OVERRIDE_SAFE'')
      else if any_search BLOCKLIST_PATTERNS text then (Fin (99 / 100), ''OVERRIDE_TOXIC'')
      else if original_tier \<in> set [''MEDIUM'', ''HIGH''] \<and> any_search GENERAL_SAFELIST_PATTERNS text
        then (Fin (1 / 100), ''OVERRIDE_SAFE'')
      else (original_prob, original_tier))"

section \<open>Python values\<close>

text \<open>
  The entry points take any Python object and test \<open>isinstance(x, str)\<close>. A value is a
  string or one of a few other objects, with \<open>str(x)\<close> as \<open>py_str\<close>.
\<close>

datatype pyval = PyStr string | PyInt int | PyBool bool | PyNone

fun isinstance_str :: "pyval \<Rightarrow> bool" where
  "isinstance_str (PyStr s) = True"
| "isinstance_str v = False"

fun decimal :: "nat \<Rightarrow> string" where
  "decimal n = (if n < 10 then [''0123456789'' ! n] else decimal (n div 10) @ [''0123456789'' ! (n mod 10)])"

fun py_str :: "pyval \<Rightarrow> string" where
  "py_str (PyStr s) = s"
| "py_str (PyInt i) = (if i < 0 then CHR ''-'' # decimal (nat (- i)) else decimal (nat i))"
| "py_str (PyBool b) = (if b then ''True'' else ''False'')"
| "py_str PyNone = ''None''"

section \<open>Text normalisation (src/text_normalize.py)\<close>

text \<open>
  Three steps of \<open>normalize_text\<close> belong to libraries outside the repository:
  \<open>ftfy.fix_text\<close>, \<open>unicodedata.normalize("NFKC", _)\<close> and the \<open>emoji\<close> package. They are
  parameters. \<open>emoji_split\<close> cuts a text into its stretches of plain text (\<open>Inl\<close>) and
  its emoji (\<open>Inr\<close>), which is how \<open>emoji.replace_emoji\<close> finds the places it hands to
  the callback; \<open>demojize\<close> is \<open>emoji.demojize\<close> on one emoji.
\<close>

record text_libs =
  fix_text :: "string \<Rightarrow> string"
  nfkc :: "string \<Rightarrow> string"
  emoji_split :: "string \<Rightarrow> (string + string) list"
  demojize :: "string \<Rightarrow> string"

definition ZERO_WIDTH :: "nat list" where
  "ZERO_WIDTH = [0x200B, 0x200C, 0x200D, 0xFEFF]"

definition LEET_MAP :: "(char \<times> char) list" where
  "LEET_MAP =
     [(CHR ''0'', CHR ''o''), (CHR ''1'', CHR ''i''), (CHR ''3'', CHR ''e''), (CHR ''4'', CHR ''a''),
      (CHR ''5'', CHR ''s''), (CHR ''7'', CHR ''t''), (CHR ''$'', CHR ''s''), (CHR ''@'', CHR ''a''),
      (CHR ''!'', CHR ''i'')]"

definition translate_delete :: "nat list \<Rightarrow> string \<Rightarrow> string" where
  \<comment> \<open>\<open>s.translate(table)\<close> for a table that maps code points to \<open>None\<close>\<close>
  "translate_delete table s = filter (\<lambda>c. of_char c \<notin> set table) s"

definition translate_map :: "(char \<times> char) list \<Rightarrow> string \<Rightarrow> string" where
  \<comment> \<open>\<open>s.translate(table)\<close> for a table that maps characters to characters\<close>
  "translate_map table s = map (\<lambda>c. case map_of table c of None \<Rightarrow> c | Some d \<Rightarrow> d) s"

definition py_lower :: "string \<Rightarrow> string" where
  "py_lower s = map lower_chr s"

text \<open>
  \<open>re.sub(r"(.)\1{2,}", r"\1\1", s)\<close>: at a character other than LF that is followed by
  two or more copies of itself, the whole run is replaced by two copies; any other
  character is kept and the scan moves on by one.
\<close>

function collapse_repeats :: "string \<Rightarrow> string" where
  "collapse_repeats [] = []"
| "collapse_repeats (c # cs) =
     (if c \<noteq> CHR 0x0A \<and> 2 \<le> length (takeWhile (\<lambda>x. x = c) cs)
      then c # c # collapse_repeats (dropWhile (\<lambda>x. x = c) cs)
      else c # collapse_repeats cs)"
  by pat_completeness auto
termination
  by (relation "measure length") (auto simp: less_Suc_eq_le length_dropWhile_le)

definition replace_emoji :: "text_libs \<Rightarrow> string \<Rightarrow> string" where
  \<comment> \<open>\<open>emoji.replace_emoji(s, replace=lambda ch, _: f" {emoji.demojize(ch)} ")\<close>\<close>
  "replace_emoji libs s =
     concat (map (\<lambda>part. case part of Inl plain \<Rightarrow> plain | Inr ch \<Rightarrow> '' '' @ demojize libs ch @ '' '')
       (emoji_split libs s))"

definition kept_chr :: "char \<Rightarrow> bool" where
  \<comment> \<open>the class \<open>[a-z0-9\s:,_\-\.\!\?@#\$%]\<close>\<close>
  "kept_chr c = ((97 \<le> (of_char c :: nat) \<and> (of_char c :: nat) \<le> 122) \<or> isdecimal c \<or> isspace c \<or>
     c \<in> set '':,_-.!?@#$%'')"

definition drop_other_chars :: "string \<Rightarrow> string" where
  \<comment> \<open>\<open>re.sub(r"[^a-z0-9\s:,_\-\.\!\?@#\$%]", " ", s)\<close>\<close>
  "drop_other_chars s = map (\<lambda>c. if kept_chr c then c else CHR '' '') s"

text \<open>\<open>s.split()\<close>: the maximal stretches without whitespace; \<open>w\<close> is the word being read.\<close>

fun split_acc :: "string \<Rightarrow> string \<Rightarrow> string list" where
  "split_acc w [] = (if w = [] then [] else [w])"
| "split_acc w (c # cs) =
     (if isspace c then (if w = [] then split_acc [] cs else w # split_acc [] cs)
      else split_acc (w @ [c]) cs)"

definition py_split :: "string \<Rightarrow> string list" where
  "py_split s = split_acc [] s"

fun py_join :: "string \<Rightarrow> string list \<Rightarrow> string" where
  "py_join sep [] = []"
| "py_join sep [w] = w"
| "py_join sep (w # ws) = w @ sep @ py_join sep ws"

definition normalize_str :: "text_libs \<Rightarrow> string \<Rightarrow> string" where
  "normalize_str libs s0 =
     (let s1 = fix_text libs s0;
          s2 = nfkc libs s1;
          s3 = translate_delete ZERO_WIDTH s2;
          s4 = py_lower s3;
          s5 = collapse_repeats s4;
          s6 = replace_emoji libs s5;
          s7 = translate_map LEET_MAP s6;
          s8 = drop_other_chars s7
      in py_join '' '' (py_split s8))"

definition normalize_text :: "text_libs \<Rightarrow> pyval \<Rightarrow> string" where
  \<comment> \<open>\<open>if not isinstance(s, str): s = str(s)\<close>; \<open>py_str\<close> of a string is the string\<close>
  "normalize_text libs s = normalize_str libs (py_str s)"

text \<open>
  For concrete examples: the libraries on plain text, that is ASCII text with no HTML
  entity, no control character and no escape sequence. Such text has no mojibake to
  repair, is in NFKC form and holds no emoji, so the three libraries return it as it is.
\<close>

definition plain_libs :: text_libs where
  "plain_libs = \<lparr>fix_text = (\<lambda>s. s), nfkc = (\<lambda>s. s), emoji_split = (\<lambda>s. [Inl s]), demojize = (\<lambda>s. s)\<rparr>"

section \<open>PII detection and redaction (src/pii.py)\<close>

subsection \<open>Patterns\<close>

definition EMAIL_RE :: regex where
  \<comment> \<open>\<open>\b[a-zA-Z0-9._%+\-]+@[a-zA-Z0-9.\-]+\.[A-Za-z]{2,}\b\<close>\<close>
  "EMAIL_RE =
     cat [WordB,
          Rep 1 None True (Cls (\<lambda>c. ascii_alpha c \<or> isdecimal c \<or> c \<in> set ''._%+-'')),
          Lit (CHR ''@''),
          Rep 1 None True (Cls (\<lambda>c. ascii_alpha c \<or> isdecimal c \<or> c \<in> set ''.-'')),
          Lit (CHR ''.''),
          Rep 2 None True (Cls ascii_alpha),
          WordB]"

definition CARD_RE :: regex where
  \<comment> \<open>\<open>\b(?:\d[ -]*?){13,19}\b\<close>\<close>
  "CARD_RE =
     cat [WordB,
          Rep 13 (Some 19) True (cat [Cls isdecimal, Rep 0 None False (Cls (\<lambda>c. c \<in> set '' -''))]),
          WordB]"

definition URL_RE :: regex where
  \<comment> \<open>\<open>(?i)\b(?:https?://|www\.)\S+\<close>\<close>
  "URL_RE =
     cat [WordB,
          alt [cat [istr ''http'', opt (LitI (CHR ''s'')), istr ''://''], istr ''www.''],
          Rep 1 None True (Cls (\<lambda>c. \<not> isspace c))]"

definition CODE_RE :: regex where
  \<comment> \<open>three backquotes, anything (lazy, LF too under \<open>re.S\<close>), three backquotes; or
      one backquote, anything but a backquote (lazy), one backquote\<close>
  "CODE_RE =
     alt [cat [Lit (CHR 0x60), Lit (CHR 0x60), Lit (CHR 0x60),
               Rep 0 None False (Cls (\<lambda>c. True)),
               Lit (CHR 0x60), Lit (CHR 0x60), Lit (CHR 0x60)],
          cat [Lit (CHR 0x60), Rep 0 None False (Cls (\<lambda>c. c \<noteq> CHR 0x60)), Lit (CHR 0x60)]]"

definition ID_HINT :: regex where
  \<comment> \<open>\<open>(?i)\b(order|ticket|issue|id|ref)\b.{0,10}[:#]?\s*[A-Z0-9\-]{3,}\<close>; under
      \<open>(?i)\<close> the class \<open>[A-Z0-9\-]\<close> takes the lower-case letters too\<close>
  "ID_HINT =
     cat [WordB, ialt [''order'', ''ticket'', ''issue'', ''id'', ''ref''], WordB,
          Rep 0 (Some 10) True (Cls (\<lambda>c. c \<noteq> CHR 0x0A)),
          opt (Cls (\<lambda>c. c \<in> set '':#'')),
          Rep 0 None True wsp,
          Rep 3 None True (Cls (\<lambda>c. ascii_alpha c \<or> isdecimal c \<or> c = CHR ''-''))]"

definition PHONE_RE :: regex where
  \<comment> \<open>the pattern written in place in \<open>detect_pii\<close>: \<open>\+?[0-9()\-.\s]{7,}\<close>\<close>
  "PHONE_RE =
     cat [opt (Lit (CHR ''+'')),
          Rep 7 None True (Cls (\<lambda>c. isdecimal c \<or> c \<in> set ''()-.'' \<or> isspace c))]"

subsection \<open>Spans and hits\<close>

type_synonym span = "nat \<times> nat"

text \<open>A hit is the tuple \<open>(KIND, (start, end), value)\<close> of the source.\<close>

type_synonym hit = "string \<times> span \<times> string"

definition slice :: "string \<Rightarrow> nat \<Rightarrow> nat \<Rightarrow> string" where
  \<comment> \<open>\<open>text[a:b]\<close> for offsets from the start: empty when \<open>b \<le> a\<close>, cut at the end of the text\<close>
  "slice text a b = take (b - a) (drop a text)"

definition group0 :: "string \<Rightarrow> span \<Rightarrow> string" where
  \<comment> \<open>\<open>match.group(0)\<close> of a match with this span\<close>
  "group0 text sp = slice text (fst sp) (snd sp)"

fun overlaps :: "span \<Rightarrow> span list \<Rightarrow> bool" where
  "overlaps (start, end') [] = False"
| "overlaps (start, end') ((check_start, check_end) # rest) =
     (if \<not> (end' \<le> check_start \<or> start \<ge> check_end) then True else overlaps (start, end') rest)"

subsection \<open>The Luhn checksum\<close>

definition digits_only :: "string \<Rightarrow> string" where
  \<comment> \<open>\<open>re.sub(r"\D", "", s)\<close>\<close>
  "digits_only s = filter isdecimal s"

definition int_of_digit :: "char \<Rightarrow> nat" where
  "int_of_digit c = of_char c - 48"

text \<open>The loop over \<open>digits[::-1]\<close> with its two variables \<open>checksum\<close> and \<open>is_alt\<close>.\<close>

fun luhn_loop :: "nat list \<Rightarrow> nat \<Rightarrow> bool \<Rightarrow> nat" where
  "luhn_loop [] checksum is_alt = checksum"
| "luhn_loop (d # ds) checksum is_alt =
     (let d' = (if is_alt then (if d * 2 > 9 then d * 2 - 9 else d * 2) else d)
      in luhn_loop ds (checksum + d') (\<not> is_alt))"

definition luhn_ok :: "string \<Rightarrow> bool" where
  "luhn_ok card_number =
     (let digits = map int_of_digit (digits_only card_number)
      in if \<not> (13 \<le> length digits \<and> length digits \<le> 19) then False
         else luhn_loop (rev digits) 0 False mod 10 = 0)"

subsection \<open>Detection\<close>

text \<open>
  The \<open>phonenumbers\<close> library is optional: \<open>None\<close> when it is not installed. When it
  is, it is a function from a candidate text to its E.164 form, \<open>None\<close> when parsing
  raises or the number is not valid.
\<close>

type_synonym phone_lib = "(string \<Rightarrow> string option) option"

definition guarded_spans :: "string \<Rightarrow> span list" where
  "guarded_spans text = finditer URL_RE text @ finditer CODE_RE text @ finditer ID_HINT text"

definition email_hits :: "string \<Rightarrow> hit list" where
  "email_hits text =
     concat (map (\<lambda>m. if \<not> overlaps m (guarded_spans text) then [(''EMAIL'', m, group0 text m)] else [])
       (finditer EMAIL_RE text))"

definition phone_hits :: "phone_lib \<Rightarrow> string \<Rightarrow> hit list" where
  "phone_hits phonenumbers text =
     (case phonenumbers of
        None \<Rightarrow> []
      | Some parse_valid_e164 \<Rightarrow>
          concat (map (\<lambda>m. if overlaps m (guarded_spans text) then []
                           else (case parse_valid_e164 (group0 text m) of
                                   None \<Rightarrow> []
                                 | Some e164_format \<Rightarrow> [(''PHONE'', m, e164_format)]))
            (finditer PHONE_RE text)))"

definition card_hits :: "string \<Rightarrow> hit list" where
  "card_hits text =
     concat (map (\<lambda>m. if overlaps m (guarded_spans text) then []
                      else (let digits = digits_only (group0 text m)
                            in if luhn_ok digits then [(''CARD'', m, digits)] else []))
       (finditer CARD_RE text))"

fun detect_pii :: "phone_lib \<Rightarrow> pyval \<Rightarrow> hit list" where
  "detect_pii phonenumbers (PyStr text) = email_hits text @ phone_hits phonenumbers text @ card_hits text"
| "detect_pii phonenumbers v = []"

subsection \<open>Redaction\<close>

definition partition_at :: "string \<Rightarrow> string \<times> string" where
  \<comment> \<open>\<open>local_part, _, domain = value.partition("@")\<close>\<close>
  "partition_at v =
     (takeWhile (\<lambda>c. c \<noteq> CHR ''@'') v, drop 1 (dropWhile (\<lambda>c. c \<noteq> CHR ''@'') v))"

definition last_n :: "nat \<Rightarrow> string \<Rightarrow> string" where
  \<comment> \<open>\<open>s[-n:]\<close> for \<open>n > 0\<close>\<close>
  "last_n n s = drop (length s - n) s"

definition mask :: "string \<Rightarrow> string \<Rightarrow> string" where
  "mask kind v =
     (if kind = ''EMAIL'' then
        (let (local_part, domain) = partition_at v in take 2 local_part @ ''***@'' @ domain)
      else if kind = ''PHONE'' then
        (let digits = digits_only v
         in if length digits > 4 then ''+'' @ replicate (length digits - 4) (CHR ''*'') @ last_n 2 digits
            else ''+******'')
      else if kind = ''CARD'' then ''**** **** **** '' @ last_n 4 v
      else [])"

text \<open>
  The loop of \<open>redact\<close> with its variable \<open>last_index\<close>; the result is the
  concatenation of \<open>parts\<close>, the text after the last hit included.
\<close>

fun redact_loop :: "string \<Rightarrow> nat \<Rightarrow> hit list \<Rightarrow> string" where
  "redact_loop text last_index [] = drop last_index text"
| "redact_loop text last_index ((kind, (start, end'), v) # rest) =
     slice text last_index start @ mask kind v @ redact_loop text end' rest"

definition start_of :: "hit \<Rightarrow> nat" where
  \<comment> \<open>the sort key \<open>lambda x: x[1][0]\<close>\<close>
  "start_of h = fst (fst (snd h))"

definition redact :: "string \<Rightarrow> hit list \<Rightarrow> string" where
  "redact text hits = (if hits = [] then text else redact_loop text 0 (sort_key start_of hits))"

section \<open>The cascade (app_streamlit.py)\<close>

text \<open>
  \<open>ARTIFACTS\<close> and \<open>POLICY\<close> are loaded from files when the application starts. The
  models are functions here: \<open>baseline\<close> is the vectorizer followed by the calibrated
  logistic regression, read at \<open>[0, 1]\<close>; \<open>bert\<close> is the tokenizer, the model and the
  softmax, read at \<open>[0, 1]\<close>; \<open>bert_calibrator\<close> is the isotonic regression. The two
  libraries that text normalisation and PII detection need come with them.
\<close>

record artifacts =
  baseline :: "string \<Rightarrow> pyfloat"
  has_bert :: bool
  bert :: "string \<Rightarrow> pyfloat"
  bert_calibrator :: "pyfloat \<Rightarrow> pyfloat"
  policy_high :: pyfloat
  policy_medium :: pyfloat
  policy_low :: pyfloat
  libs :: text_libs
  phonenumbers :: phone_lib

text \<open>The calls made to the models are recorded, in the order they are made.\<close>

datatype model_call = Baseline string | Bert string | Calibrator pyfloat

record score =
  prob_final :: pyfloat
  tier :: tier
  pii_hits :: "(string \<times> string) list"
  redacted :: pyval
  escalated_to_bert :: bool

definition LR_GRAY_LOW :: pyfloat where
  "LR_GRAY_LOW = Fin (10 / 100)"

definition LR_GRAY_HIGH :: pyfloat where
  "LR_GRAY_HIGH = Fin (60 / 100)"

definition in_gray_zone :: "pyfloat \<Rightarrow> bool" where
  \<comment> \<open>\<open>LR_GRAY_LOW <= prob_lr < LR_GRAY_HIGH\<close>\<close>
  "in_gray_zone prob_lr = (fle LR_GRAY_LOW prob_lr \<and> flt prob_lr LR_GRAY_HIGH)"

text \<open>
  The two model stages: the probability that goes on to the tiers, whether the
  comment was escalated, and the calls made.
\<close>

definition model_stages :: "artifacts \<Rightarrow> string \<Rightarrow> pyfloat \<times> bool \<times> model_call list" where
  "model_stages A text_norm =
     (let prob_lr = baseline A text_norm
      in if has_bert A \<and> in_gray_zone prob_lr then
           (let prob_raw = bert A text_norm
            in (bert_calibrator A prob_raw, True, [Baseline text_norm, Bert text_norm, Calibrator prob_raw]))
         else (prob_lr, False, [Baseline text_norm]))"

definition initial_tier :: "artifacts \<Rightarrow> pyfloat \<Rightarrow> tier" where
  "initial_tier A p =
     (if fle (policy_high A) p then ''HIGH''
      else if fle (policy_medium A) p then ''MEDIUM''
      else if fle (policy_low A) p then ''LOW'' else ''VERY_LOW'')"

definition strip :: "string \<Rightarrow> string" where
  \<comment> \<open>\<open>text.strip()\<close>\<close>
  "strip s = rev (dropWhile isspace (rev (dropWhile isspace s)))"

fun score_comment_cascade :: "artifacts \<Rightarrow> pyval \<Rightarrow> score \<times> model_call list" where
  "score_comment_cascade A (PyStr text) =
     (if strip text = [] then
        (\<lparr>prob_final = Fin 0, tier = ''VERY_LOW'', pii_hits = [], redacted = PyStr text,
          escalated_to_bert = False\<rparr>, [])
      else
        (let text_norm = normalize_text (libs A) (PyStr text);
             (prob, escalated, calls) = model_stages A text_norm;
             (prob', final_tier) = apply_overrides text prob (initial_tier A prob);
             hits = detect_pii (phonenumbers A) (PyStr text);
             redacted_text = redact text hits
         in (\<lparr>prob_final = prob', tier = final_tier,
              pii_hits = map (\<lambda>(kind, _, val). (kind, val)) hits,
              redacted = PyStr redacted_text, escalated_to_bert = escalated\<rparr>, calls)))"
| "score_comment_cascade A text =
     (\<lparr>prob_final = Fin 0, tier = ''VERY_LOW'', pii_hits = [], redacted = text,
       escalated_to_bert = False\<rparr>, [])"

text \<open>
  For concrete examples: models that return the same probability for every text, an
  identity calibrator, the thresholds 0.8, 0.5 and 0.2, plain text, and no phone
  library.
\<close>

definition example_artifacts :: "bool \<Rightarrow> pyfloat \<Rightarrow> pyfloat \<Rightarrow> artifacts" where
  "example_artifacts with_bert p_lr p_bert =
     \<lparr>baseline = (\<lambda>t. p_lr), has_bert = with_bert, bert = (\<lambda>t. p_bert), bert_calibrator = (\<lambda>p. p),
      policy_high = Fin (80 / 100), policy_medium = Fin (50 / 100), policy_low = Fin (20 / 100),
      libs = plain_libs, phonenumbers = None\<rparr>"

section \<open>Notions used to state the properties\<close>

text \<open>The least number of characters a match of a pattern spans.\<close>

primrec min_width :: "regex \<Rightarrow> nat" where
  "min_width Eps = 0"
| "min_width (Lit c) = 1"
| "min_width (LitI c) = 1"
| "min_width (Cls P) = 1"
| "min_width WordB = 0"
| "min_width (Cat a b) = min_width a + min_width b"
| "min_width (Alt a b) = min (min_width a) (min_width b)"
| "min_width (Rep lo hi greedy r) = lo * min_width r"

text \<open>
  The Luhn checksum as it is usually stated: counting the digits from the right and from
  0, every digit at an odd place is doubled, and 9 is taken off a double above 9; the
  number passes when the sum is a multiple of 10.
\<close>

definition luhn_term :: "nat \<Rightarrow> nat \<Rightarrow> nat" where
  "luhn_term i d = (if odd i then (if d * 2 > 9 then d * 2 - 9 else d * 2) else d)"

definition luhn_sum :: "nat list \<Rightarrow> nat" where
  "luhn_sum digits = (\<Sum>i<length digits. luhn_term i (rev digits ! i))"

text \<open>
  What \<open>redact\<close> puts into \<open>parts\<close>, taken apart: the slices of the text it copies, and
  the masks; \<open>weave\<close> puts them together again, slice first.
\<close>

fun copied :: "string \<Rightarrow> nat \<Rightarrow> hit list \<Rightarrow> string list" where
  "copied text last_index [] = [drop last_index text]"
| "copied text last_index ((kind, (start, end'), v) # rest) =
     slice text last_index start # copied text end' rest"

definition mask_of :: "hit \<Rightarrow> string" where
  "mask_of h = mask (fst h) (snd (snd h))"

fun weave :: "string list \<Rightarrow> string list \<Rightarrow> string" where
  "weave (g # gs) (m # ms) = g @ m @ weave gs ms"
| "weave gs [] = concat gs"
| "weave [] ms = concat ms"

definition span_of :: "hit \<Rightarrow> span" where
  "span_of h = fst (snd h)"

definition end_of :: "hit \<Rightarrow> nat" where
  "end_of h = snd (fst (snd h))"

definition covered :: "hit list \<Rightarrow> nat set" where
  \<comment> \<open>the offsets that lie in the span of some hit\<close>
  "covered hits = {i. \<exists>h\<in>set hits. start_of h \<le> i \<and> i < end_of h}"

definition outside :: "string \<Rightarrow> hit list \<Rightarrow> string" where
  \<comment> \<open>the characters of the text outside every span, in their order\<close>
  "outside text hits = nths text (- covered hits)"

text \<open>No hit overlaps a later one of the list, by the overlap test of the source.\<close>

fun non_overlapping :: "hit list \<Rightarrow> bool" where
  "non_overlapping [] = True"
| "non_overlapping (h # hs) = (\<not> overlaps (span_of h) (map span_of hs) \<and> non_overlapping hs)"

text \<open>A run of three or more copies of one character.\<close>

fun has_triple :: "string \<Rightarrow> bool" where
  "has_triple (a # b # c # rest) = ((a = b \<and> b = c) \<or> has_triple (b # c # rest))"
| "has_triple s = False"

text \<open>
  The characters that can stand in a normalised text: what the last three steps of
  \<open>normalize_text\<close> let through. The leetspeak step leaves none of its nine keys, the
  filter keeps of the rest the lower-case letters, the digits 2, 6, 8 and 9 and the
  punctuation \<open>: , _ - . ? # %\<close>, and joining the words puts single spaces between them.
\<close>

definition out_chr :: "char \<Rightarrow> bool" where
  "out_chr c = ((97 \<le> (of_char c :: nat) \<and> (of_char c :: nat) \<le> 122) \<or> c \<in> set ''2689'' \<or>
     c \<in> set '':,_-.?#%'' \<or> c = CHR '' '')"

text \<open>
  What is assumed of the three libraries where idempotence is concerned: they leave a
  text of such characters as it is (it is ASCII without upper case, control characters,
  \<open>&\<close> or emoji).
\<close>

definition libs_keep_plain :: "text_libs \<Rightarrow> bool" where
  "libs_keep_plain L =
     (\<forall>s. (\<forall>c\<in>set s. out_chr c) \<longrightarrow> fix_text L s = s \<and> nfkc L s = s \<and> replace_emoji L s = s)"

subsection \<open>Evaluation tables\<close>

text \<open>
  The character classes at the characters of printable ASCII, TAB, LF and CR, as rewrite
  rules: evaluating a pattern on a concrete text looks a character up instead of
  computing with its code point.
\<close>

lemma isspace_tab:
  "isspace (CHR 0x09) = True" "isspace (CHR 0x0A) = True" "isspace (CHR 0x0D) = True" "isspace (CHR '' '') = True"
  "isspace (CHR ''!'') = False" "isspace (CHR 0x22) = False" "isspace (CHR ''#'') = False" "isspace (CHR ''$'') = False"
  "isspace (CHR ''%'') = False" "isspace (CHR ''&'') = False" "isspace (CHR 0x27) = False" "isspace (CHR ''('') = False"
  "isspace (CHR '')'') = False" "isspace (CHR ''*'') = False" "isspace (CHR ''+'') = False" "isspace (CHR '','') = False"
  "isspace (CHR ''-'') = False" "isspace (CHR ''.'') = False" "isspace (CHR ''/'') = False" "isspace (CHR ''0'') = False"
  "isspace (CHR ''1'') = False" "isspace (CHR ''2'') = False" "isspace (CHR ''3'') = False" "isspace (CHR ''4'') = False"
  "isspace (CHR ''5'') = False" "isspace (CHR ''6'') = False" "isspace (CHR ''7'') = False" "isspace (CHR ''8'') = False"
  "isspace (CHR ''9'') = False" "isspace (CHR '':'') = False" "isspace (CHR '';'') = False" "isspace (CHR ''<'') = False"
  "isspace (CHR ''='') = False" "isspace (CHR ''>'') = False" "isspace (CHR ''?'') = False" "isspace (CHR ''@'') = False"
  "isspace (CHR ''A'') = False" "isspace (CHR ''B'') = False" "isspace (CHR ''C'') = False" "isspace (CHR ''D'') = False"
  "isspace (CHR ''E'') = False" "isspace (CHR ''F'') = False" "isspace (CHR ''G'') = False" "isspace (CHR ''H'') = False"
  "isspace (CHR ''I'') = False" "isspace (CHR ''J'') = False" "isspace (CHR ''K'') = False" "isspace (CHR ''L'') = False"
  "isspace (CHR ''M'') = False" "isspace (CHR ''N'') = False" "isspace (CHR ''O'') = False" "isspace (CHR ''P'') = False"
  "isspace (CHR ''Q'') = False" "isspace (CHR ''R'') = False" "isspace (CHR ''S'') = False" "isspace (CHR ''T'') = False"
  "isspace (CHR ''U'') = False" "isspace (CHR ''V'') = False" "isspace (CHR ''W'') = False" "isspace (CHR ''X'') = False"
  "isspace (CHR ''Y'') = False" "isspace (CHR ''Z'') = False" "isspace (CHR ''['') = False" "isspace (CHR 0x5C) = False"
  "isspace (CHR '']'') = False" "isspace (CHR ''^'') = False" "isspace (CHR ''_'') = False" "isspace (CHR 0x60) = False"
  "isspace (CHR ''a'') = False" "isspace (CHR ''b'') = False" "isspace (CHR ''c'') = False" "isspace (CHR ''d'') = False"
  "isspace (CHR ''e'') = False" "isspace (CHR ''f'') = False" "isspace (CHR ''g'') = False" "isspace (CHR ''h'') = False"
  "isspace (CHR ''i'') = False" "isspace (CHR ''j'') = False" "isspace (CHR ''k'') = False" "isspace (CHR ''l'') = False"
  "isspace (CHR ''m'') = False" "isspace (CHR ''n'') = False" "isspace (CHR ''o'') = False" "isspace (CHR ''p'') = False"
  "isspace (CHR ''q'') = False" "isspace (CHR ''r'') = False" "isspace (CHR ''s'') = False" "isspace (CHR ''t'') = False"
  "isspace (CHR ''u'') = False" "isspace (CHR ''v'') = False" "isspace (CHR ''w'') = False" "isspace (CHR ''x'') = False"
  "isspace (CHR ''y'') = False" "isspace (CHR ''z'') = False" "isspace (CHR ''{'') = False" "isspace (CHR ''|'') = False"
  "isspace (CHR ''}'') = False" "isspace (CHR ''~'') = False"
  by (simp_all add: isspace_def)

lemma isdecimal_tab:
  "isdecimal (CHR 0x09) = False" "isdecimal (CHR 0x0A) = False" "isdecimal (CHR 0x0D) = False" "isdecimal (CHR '' '') = False"
  "isdecimal (CHR ''!'') = False" "isdecimal (CHR 0x22) = False" "isdecimal (CHR ''#'') = False" "isdecimal (CHR ''$'') = False"
  "isdecimal (CHR ''%'') = False" "isdecimal (CHR ''&'') = False" "isdecimal (CHR 0x27) = False" "isdecimal (CHR ''('') = False"
  "isdecimal (CHR '')'') = False" "isdecimal (CHR ''*'') = False" "isdecimal (CHR ''+'') = False" "isdecimal (CHR '','') = False"
  "isdecimal (CHR ''-'') = False" "isdecimal (CHR ''.'') = False" "isdecimal (CHR ''/'') = False" "isdecimal (CHR ''0'') = True"
  "isdecimal (CHR ''1'') = True" "isdecimal (CHR ''2'') = True" "isdecimal (CHR ''3'') = True" "isdecimal (CHR ''4'') = True"
  "isdecimal (CHR ''5'') = True" "isdecimal (CHR ''6'') = True" "isdecimal (CHR ''7'') = True" "isdecimal (CHR ''8'') = True"
  "isdecimal (CHR ''9'') = True" "isdecimal (CHR '':'') = False" "isdecimal (CHR '';'') = False" "isdecimal (CHR ''<'') = False"
  "isdecimal (CHR ''='') = False" "isdecimal (CHR ''>'') = False" "isdecimal (CHR ''?'') = False" "isdecimal (CHR ''@'') = False"
  "isdecimal (CHR ''A'') = False" "isdecimal (CHR ''B'') = False" "isdecimal (CHR ''C'') = False" "isdecimal (CHR ''D'') = False"
  "isdecimal (CHR ''E'') = False" "isdecimal (CHR ''F'') = False" "isdecimal (CHR ''G'') = False" "isdecimal (CHR ''H'') = False"
  "isdecimal (CHR ''I'') = False" "isdecimal (CHR ''J'') = False" "isdecimal (CHR ''K'') = False" "isdecimal (CHR ''L'') = False"
  "isdecimal (CHR ''M'') = False" "isdecimal (CHR ''N'') = False" "isdecimal (CHR ''O'') = False" "isdecimal (CHR ''P'') = False"
  "isdecimal (CHR ''Q'') = False" "isdecimal (CHR ''R'') = False" "isdecimal (CHR ''S'') = False" "isdecimal (CHR ''T'') = False"
  "isdecimal (CHR ''U'') = False" "isdecimal (CHR ''V'') = False" "isdecimal (CHR ''W'') = False" "isdecimal (CHR ''X'') = False"
  "isdecimal (CHR ''Y'') = False" "isdecimal (CHR ''Z'') = False" "isdecimal (CHR ''['') = False" "isdecimal (CHR 0x5C) = False"
  "isdecimal (CHR '']'') = False" "isdecimal (CHR ''^'') = False" "isdecimal (CHR ''_'') = False" "isdecimal (CHR 0x60) = False"
  "isdecimal (CHR ''a'') = False" "isdecimal (CHR ''b'') = False" "isdecimal (CHR ''c'') = False" "isdecimal (CHR ''d'') = False"
  "isdecimal (CHR ''e'') = False" "isdecimal (CHR ''f'') = False" "isdecimal (CHR ''g'') = False" "isdecimal (CHR ''h'') = False"
  "isdecimal (CHR ''i'') = False" "isdecimal (CHR ''j'') = False" "isdecimal (CHR ''k'') = False" "isdecimal (CHR ''l'') = False"
  "isdecimal (CHR ''m'') = False" "isdecimal (CHR ''n'') = False" "isdecimal (CHR ''o'') = False" "isdecimal (CHR ''p'') = False"
  "isdecimal (CHR ''q'') = False" "isdecimal (CHR ''r'') = False" "isdecimal (CHR ''s'') = False" "isdecimal (CHR ''t'') = False"
  "isdecimal (CHR ''u'') = False" "isdecimal (CHR ''v'') = False" "isdecimal (CHR ''w'') = False" "isdecimal (CHR ''x'') = False"
  "isdecimal (CHR ''y'') = False" "isdecimal (CHR ''z'') = False" "isdecimal (CHR ''{'') = False" "isdecimal (CHR ''|'') = False"
  "isdecimal (CHR ''}'') = False" "isdecimal (CHR ''~'') = False"
  by (simp_all add: isdecimal_def)

lemma ascii_alpha_tab:
  "ascii_alpha (CHR 0x09) = False" "ascii_alpha (CHR 0x0A) = False" "ascii_alpha (CHR 0x0D) = False" "ascii_alpha (CHR '' '') = False"
  "ascii_alpha (CHR ''!'') = False" "ascii_alpha (CHR 0x22) = False" "ascii_alpha (CHR ''#'') = False" "ascii_alpha (CHR ''$'') = False"
  "ascii_alpha (CHR ''%'') = False" "ascii_alpha (CHR ''&'') = False" "ascii_alpha (CHR 0x27) = False" "ascii_alpha (CHR ''('') = False"
  "ascii_alpha (CHR '')'') = False" "ascii_alpha (CHR ''*'') = False" "ascii_alpha (CHR ''+'') = False" "ascii_alpha (CHR '','') = False"
  "ascii_alpha (CHR ''-'') = False" "ascii_alpha (CHR ''.'') = False" "ascii_alpha (CHR ''/'') = False" "ascii_alpha (CHR ''0'') = False"
  "ascii_alpha (CHR ''1'') = False" "ascii_alpha (CHR ''2'') = False" "ascii_alpha (CHR ''3'') = False" "ascii_alpha (CHR ''4'') = False"
  "ascii_alpha (CHR ''5'') = False" "ascii_alpha (CHR ''6'') = False" "ascii_alpha (CHR ''7'') = False" "ascii_alpha (CHR ''8'') = False"
  "ascii_alpha (CHR ''9'') = False" "ascii_alpha (CHR '':'') = False" "ascii_alpha (CHR '';'') = False" "ascii_alpha (CHR ''<'') = False"
  "ascii_alpha (CHR ''='') = False" "ascii_alpha (CHR ''>'') = False" "ascii_alpha (CHR ''?'') = False" "ascii_alpha (CHR ''@'') = False"
  "ascii_alpha (CHR ''A'') = True" "ascii_alpha (CHR ''B'') = True" "ascii_alpha (CHR ''C'') = True" "ascii_alpha (CHR ''D'') = True"
  "ascii_alpha (CHR ''E'') = True" "ascii_alpha (CHR ''F'') = True" "ascii_alpha (CHR ''G'') = True" "ascii_alpha (CHR ''H'') = True"
  "ascii_alpha (CHR ''I'') = True" "ascii_alpha (CHR ''J'') = True" "ascii_alpha (CHR ''K'') = True" "ascii_alpha (CHR ''L'') = True"
  "ascii_alpha (CHR ''M'') = True" "ascii_alpha (CHR ''N'') = True" "ascii_alpha (CHR ''O'') = True" "ascii_alpha (CHR ''P'') = True"
  "ascii_alpha (CHR ''Q'') = True" "ascii_alpha (CHR ''R'') = True" "ascii_alpha (CHR ''S'') = True" "ascii_alpha (CHR ''T'') = True"
  "ascii_alpha (CHR ''U'') = True" "ascii_alpha (CHR ''V'') = True" "ascii_alpha (CHR ''W'') = True" "ascii_alpha (CHR ''X'') = True"
  "ascii_alpha (CHR ''Y'') = True" "ascii_alpha (CHR ''Z'') = True" "ascii_alpha (CHR ''['') = False" "ascii_alpha (CHR 0x5C) = False"
  "ascii_alpha (CHR '']'') = False" "ascii_alpha (CHR ''^'') = False" "ascii_alpha (CHR ''_'') = False" "ascii_alpha (CHR 0x60) = False"
  "ascii_alpha (CHR ''a'') = True" "ascii_alpha (CHR ''b'') = True" "ascii_alpha (CHR ''c'') = True" "ascii_alpha (CHR ''d'') = True"
  "ascii_alpha (CHR ''e'') = True" "ascii_alpha (CHR ''f'') = True" "ascii_alpha (CHR ''g'') = True" "ascii_alpha (CHR ''h'') = True"
  "ascii_alpha (CHR ''i'') = True" "ascii_alpha (CHR ''j'') = True" "ascii_alpha (CHR ''k'') = True" "ascii_alpha (CHR ''l'') = True"
  "ascii_alpha (CHR ''m'') = True" "ascii_alpha (CHR ''n'') = True" "ascii_alpha (CHR ''o'') = True" "ascii_alpha (CHR ''p'') = True"
  "ascii_alpha (CHR ''q'') = True" "ascii_alpha (CHR ''r'') = True" "ascii_alpha (CHR ''s'') = True" "ascii_alpha (CHR ''t'') = True"
  "ascii_alpha (CHR ''u'') = True" "ascii_alpha (CHR ''v'') = True" "ascii_alpha (CHR ''w'') = True" "ascii_alpha (CHR ''x'') = True"
  "ascii_alpha (CHR ''y'') = True" "ascii_alpha (CHR ''z'') = True" "ascii_alpha (CHR ''{'') = False" "ascii_alpha (CHR ''|'') = False"
  "ascii_alpha (CHR ''}'') = False" "ascii_alpha (CHR ''~'') = False"
  by (simp_all add: ascii_alpha_def)

lemma isword_tab:
  "isword (CHR 0x09) = False" "isword (CHR 0x0A) = False" "isword (CHR 0x0D) = False" "isword (CHR '' '') = False"
  "isword (CHR ''!'') = False" "isword (CHR 0x22) = False" "isword (CHR ''#'') = False" "isword (CHR ''$'') = False"
  "isword (CHR ''%'') = False" "isword (CHR ''&'') = False" "isword (CHR 0x27) = False" "isword (CHR ''('') = False"
  "isword (CHR '')'') = False" "isword (CHR ''*'') = False" "isword (CHR ''+'') = False" "isword (CHR '','') = False"
  "isword (CHR ''-'') = False" "isword (CHR ''.'') = False" "isword (CHR ''/'') = False" "isword (CHR ''0'') = True"
  "isword (CHR ''1'') = True" "isword (CHR ''2'') = True" "isword (CHR ''3'') = True" "isword (CHR ''4'') = True"
  "isword (CHR ''5'') = True" "isword (CHR ''6'') = True" "isword (CHR ''7'') = True" "isword (CHR ''8'') = True"
  "isword (CHR ''9'') = True" "isword (CHR '':'') = False" "isword (CHR '';'') = False" "isword (CHR ''<'') = False"
  "isword (CHR ''='') = False" "isword (CHR ''>'') = False" "isword (CHR ''?'') = False" "isword (CHR ''@'') = False"
  "isword (CHR ''A'') = True" "isword (CHR ''B'') = True" "isword (CHR ''C'') = True" "isword (CHR ''D'') = True"
  "isword (CHR ''E'') = True" "isword (CHR ''F'') = True" "isword (CHR ''G'') = True" "isword (CHR ''H'') = True"
  "isword (CHR ''I'') = True" "isword (CHR ''J'') = True" "isword (CHR ''K'') = True" "isword (CHR ''L'') = True"
  "isword (CHR ''M'') = True" "isword (CHR ''N'') = True" "isword (CHR ''O'') = True" "isword (CHR ''P'') = True"
  "isword (CHR ''Q'') = True" "isword (CHR ''R'') = True" "isword (CHR ''S'') = True" "isword (CHR ''T'') = True"
  "isword (CHR ''U'') = True" "isword (CHR ''V'') = True" "isword (CHR ''W'') = True" "isword (CHR ''X'') = True"
  "isword (CHR ''Y'') = True" "isword (CHR ''Z'') = True" "isword (CHR ''['') = False" "isword (CHR 0x5C) = False"
  "isword (CHR '']'') = False" "isword (CHR ''^'') = False" "isword (CHR ''_'') = True" "isword (CHR 0x60) = False"
  "isword (CHR ''a'') = True" "isword (CHR ''b'') = True" "isword (CHR ''c'') = True" "isword (CHR ''d'') = True"
  "isword (CHR ''e'') = True" "isword (CHR ''f'') = True" "isword (CHR ''g'') = True" "isword (CHR ''h'') = True"
  "isword (CHR ''i'') = True" "isword (CHR ''j'') = True" "isword (CHR ''k'') = True" "isword (CHR ''l'') = True"
  "isword (CHR ''m'') = True" "isword (CHR ''n'') = True" "isword (CHR ''o'') = True" "isword (CHR ''p'') = True"
  "isword (CHR ''q'') = True" "isword (CHR ''r'') = True" "isword (CHR ''s'') = True" "isword (CHR ''t'') = True"
  "isword (CHR ''u'') = True" "isword (CHR ''v'') = True" "isword (CHR ''w'') = True" "isword (CHR ''x'') = True"
  "isword (CHR ''y'') = True" "isword (CHR ''z'') = True" "isword (CHR ''{'') = False" "isword (CHR ''|'') = False"
  "isword (CHR ''}'') = False" "isword (CHR ''~'') = False"
  by (simp_all add: isword_def isalnum_def isdecimal_def ascii_alpha_def)

lemma lower_chr_tab:
  "lower_chr (CHR 0x09) = CHR 0x09" "lower_chr (CHR 0x0A) = CHR 0x0A" "lower_chr (CHR 0x0D) = CHR 0x0D"
  "lower_chr (CHR '' '') = CHR '' ''" "lower_chr (CHR ''!'') = CHR ''!''" "lower_chr (CHR 0x22) = CHR 0x22"
  "lower_chr (CHR ''#'') = CHR ''#''" "lower_chr (CHR ''$'') = CHR ''$''" "lower_chr (CHR ''%'') = CHR ''%''"
  "lower_chr (CHR ''&'') = CHR ''&''" "lower_chr (CHR 0x27) = CHR 0x27" "lower_chr (CHR ''('') = CHR ''(''"
  "lower_chr (CHR '')'') = CHR '')''" "lower_chr (CHR ''*'') = CHR ''*''" "lower_chr (CHR ''+'') = CHR ''+''"
  "lower_chr (CHR '','') = CHR '',''" "lower_chr (CHR ''-'') = CHR ''-''" "lower_chr (CHR ''.'') = CHR ''.''"
  "lower_chr (CHR ''/'') = CHR ''/''" "lower_chr (CHR ''0'') = CHR ''0''" "lower_chr (CHR ''1'') = CHR ''1''"
  "lower_chr (CHR ''2'') = CHR ''2''" "lower_chr (CHR ''3'') = CHR ''3''" "lower_chr (CHR ''4'') = CHR ''4''"
  "lower_chr (CHR ''5'') = CHR ''5''" "lower_chr (CHR ''6'') = CHR ''6''" "lower_chr (CHR ''7'') = CHR ''7''"
  "lower_chr (CHR ''8'') = CHR ''8''" "lower_chr (CHR ''9'') = CHR ''9''" "lower_chr (CHR '':'') = CHR '':''"
  "lower_chr (CHR '';'') = CHR '';''" "lower_chr (CHR ''<'') = CHR ''<''" "lower_chr (CHR ''='') = CHR ''=''"
  "lower_chr (CHR ''>'') = CHR ''>''" "lower_chr (CHR ''?'') = CHR ''?''" "lower_chr (CHR ''@'') = CHR ''@''"
  "lower_chr (CHR ''A'') = CHR ''a''" "lower_chr (CHR ''B'') = CHR ''b''" "lower_chr (CHR ''C'') = CHR ''c''"
  "lower_chr (CHR ''D'') = CHR ''d''" "lower_chr (CHR ''E'') = CHR ''e''" "lower_chr (CHR ''F'') = CHR ''f''"
  "lower_chr (CHR ''G'') = CHR ''g''" "lower_chr (CHR ''H'') = CHR ''h''" "lower_chr (CHR ''I'') = CHR ''i''"
  "lower_chr (CHR ''J'') = CHR ''j''" "lower_chr (CHR ''K'') = CHR ''k''" "lower_chr (CHR ''L'') = CHR ''l''"
  "lower_chr (CHR ''M'') = CHR ''m''" "lower_chr (CHR ''N'') = CHR ''n''" "lower_chr (CHR ''O'') = CHR ''o''"
  "lower_chr (CHR ''P'') = CHR ''p''" "lower_chr (CHR ''Q'') = CHR ''q''" "lower_chr (CHR ''R'') = CHR ''r''"
  "lower_chr (CHR ''S'') = CHR ''s''" "lower_chr (CHR ''T'') = CHR ''t''" "lower_chr (CHR ''U'') = CHR ''u''"
  "lower_chr (CHR ''V'') = CHR ''v''" "lower_chr (CHR ''W'') = CHR ''w''" "lower_chr (CHR ''X'') = CHR ''x''"
  "lower_chr (CHR ''Y'') = CHR ''y''" "lower_chr (CHR ''Z'') = CHR ''z''" "lower_chr (CHR ''['') = CHR ''[''"
  "lower_chr (CHR 0x5C) = CHR 0x5C" "lower_chr (CHR '']'') = CHR '']''" "lower_chr (CHR ''^'') = CHR ''^''"
  "lower_chr (CHR ''_'') = CHR ''_''" "lower_chr (CHR 0x60) = CHR 0x60" "lower_chr (CHR ''a'') = CHR ''a''"
  "lower_chr (CHR ''b'') = CHR ''b''" "lower_chr (CHR ''c'') = CHR ''c''" "lower_chr (CHR ''d'') = CHR ''d''"
  "lower_chr (CHR ''e'') = CHR ''e''" "lower_chr (CHR ''f'') = CHR ''f''" "lower_chr (CHR ''g'') = CHR ''g''"
  "lower_chr (CHR ''h'') = CHR ''h''" "lower_chr (CHR ''i'') = CHR ''i''" "lower_chr (CHR ''j'') = CHR ''j''"
  "lower_chr (CHR ''k'') = CHR ''k''" "lower_chr (CHR ''l'') = CHR ''l''" "lower_chr (CHR ''m'') = CHR ''m''"
  "lower_chr (CHR ''n'') = CHR ''n''" "lower_chr (CHR ''o'') = CHR ''o''" "lower_chr (CHR ''p'') = CHR ''p''"
  "lower_chr (CHR ''q'') = CHR ''q''" "lower_chr (CHR ''r'') = CHR ''r''" "lower_chr (CHR ''s'') = CHR ''s''"
  "lower_chr (CHR ''t'') = CHR ''t''" "lower_chr (CHR ''u'') = CHR ''u''" "lower_chr (CHR ''v'') = CHR ''v''"
  "lower_chr (CHR ''w'') = CHR ''w''" "lower_chr (CHR ''x'') = CHR ''x''" "lower_chr (CHR ''y'') = CHR ''y''"
  "lower_chr (CHR ''z'') = CHR ''z''" "lower_chr (CHR ''{'') = CHR ''{''" "lower_chr (CHR ''|'') = CHR ''|''"
  "lower_chr (CHR ''}'') = CHR ''}''" "lower_chr (CHR ''~'') = CHR ''~''"
  by (simp_all add: lower_chr_def isupper_def)

section \<open>Evaluating patterns\<close>

lemma rep_numeral:
  "rep f greedy lo (numeral n) k cont =
     (if 0 < lo then f k (\<lambda>k'. rep f greedy (lo - 1) (pred_numeral n) k' cont)
      else if greedy then
        (case f k (\<lambda>k'. rep f greedy 0 (pred_numeral n) k' cont) of Some x \<Rightarrow> Some x | None \<Rightarrow> cont k)
      else
        (case cont k of Some x \<Rightarrow> Some x | None \<Rightarrow> f k (\<lambda>k'. rep f greedy 0 (pred_numeral n) k' cont)))"
  by (simp only: numeral_eq_Suc rep.simps)

lemmas rx_eval =
  isspace_tab isdecimal_tab ascii_alpha_tab isword_tab lower_chr_tab
  rep_numeral cat_def alt_def str_def istr_def ialt_def wsp_def opt_def
  match_at_def search_def

lemma any_search_iff: "any_search ps text \<longleftrightarrow> (\<exists>pattern\<in>set ps. search pattern text)"
  by (induction ps) auto

lemmas blocklist_defs =
  BLOCKLIST_PATTERNS_def THREAT_PATTERNS_def OBSCENE_PATTERNS_def INSULT_PATTERNS_def
  PASSIVE_AGGRESSIVE_PATTERNS_def DOG_WHISTLE_PATTERNS_def GLORIFICATION_PATTERNS_def
  SUBTLE_THREAT_PATTERNS_def IDENTITY_ATTACK_PATTERNS_def SPAM_PATTERNS_def

lemmas safelist_defs = GENERAL_SAFELIST_PATTERNS_def NEGATIVE_VERBS_def HARMLESS_OBJECTS_def

section \<open>The override rules\<close>

lemma meta_example: "any_search META_PATTERNS ''the word bitch is used too much''"
  by (simp add: META_PATTERNS_def rx_eval)

lemma block_example: "any_search BLOCKLIST_PATTERNS ''the word bitch is used too much''"
  by (simp add: BLOCKLIST_PATTERNS_def THREAT_PATTERNS_def OBSCENE_PATTERNS_def INSULT_PATTERNS_def
      rx_eval)

text \<open>
  C1. A text that matches a meta-discussion pattern is forced to
  \<open>(0.01, OVERRIDE_SAFE)\<close>, whatever the incoming probability and tier; the blocklist is
  not consulted, so this holds also when a blocklist pattern matches the text.
\<close>

theorem apply_overrides_meta:
  assumes "\<exists>pattern\<in>set META_PATTERNS. search pattern text"
  shows "apply_overrides text original_prob original_tier = (Fin (1 / 100), ''OVERRIDE_SAFE'')"
  using assms by (simp add: apply_overrides_def any_search_iff)

theorem apply_overrides_meta_witness:
  "(\<exists>pattern\<in>set META_PATTERNS. search pattern ''the word bitch is used too much'') \<and>
   (\<exists>pattern\<in>set BLOCKLIST_PATTERNS. search pattern ''the word bitch is used too much'') \<and>
   apply_overrides ''the word bitch is used too much'' (Fin (97 / 100)) ''HIGH''
     = (Fin (1 / 100), ''OVERRIDE_SAFE'')"
proof -
  have m: "\<exists>pattern\<in>set META_PATTERNS. search pattern ''the word bitch is used too much''"
    using meta_example unfolding any_search_iff .
  have b: "\<exists>pattern\<in>set BLOCKLIST_PATTERNS. search pattern ''the word bitch is used too much''"
    using block_example unfolding any_search_iff .
  from m b apply_overrides_meta [OF m] show ?thesis by blast
qed

lemma idiot_plant_meta: "\<not> any_search META_PATTERNS ''you idiot, you killed my plant''"
  by (simp add: META_PATTERNS_def rx_eval)

lemma idiot_plant_block: "any_search BLOCKLIST_PATTERNS ''you idiot, you killed my plant''"
  by (simp add: blocklist_defs rx_eval)

lemma idiot_plant_general: "any_search GENERAL_SAFELIST_PATTERNS ''you idiot, you killed my plant''"
  by (simp add: safelist_defs rx_eval)

text \<open>
  C2. A text that matches no meta-discussion pattern and at least one blocklist pattern,
  of any category, is forced to \<open>(0.99, OVERRIDE_TOXIC)\<close>, whatever the incoming
  probability and tier; the general safelist is not consulted, so this holds also when a
  general-safelist pattern matches the text.
\<close>

theorem apply_overrides_blocklist:
  assumes "\<not> (\<exists>pattern\<in>set META_PATTERNS. search pattern text)"
    and "\<exists>pattern\<in>set BLOCKLIST_PATTERNS. search pattern text"
  shows "apply_overrides text original_prob original_tier = (Fin (99 / 100), ''OVERRIDE_TOXIC'')"
  using assms by (simp add: apply_overrides_def any_search_iff)

theorem apply_overrides_blocklist_witness:
  "\<not> (\<exists>pattern\<in>set META_PATTERNS. search pattern ''you idiot, you killed my plant'') \<and>
   (\<exists>pattern\<in>set BLOCKLIST_PATTERNS. search pattern ''you idiot, you killed my plant'') \<and>
   (\<exists>pattern\<in>set GENERAL_SAFELIST_PATTERNS. search pattern ''you idiot, you killed my plant'') \<and>
   apply_overrides ''you idiot, you killed my plant'' (Fin (70 / 100)) ''HIGH''
     = (Fin (99 / 100), ''OVERRIDE_TOXIC'')"
proof -
  have m: "\<not> (\<exists>pattern\<in>set META_PATTERNS. search pattern ''you idiot, you killed my plant'')"
    using idiot_plant_meta unfolding any_search_iff .
  have b: "\<exists>pattern\<in>set BLOCKLIST_PATTERNS. search pattern ''you idiot, you killed my plant''"
    using idiot_plant_block unfolding any_search_iff .
  have g: "\<exists>pattern\<in>set GENERAL_SAFELIST_PATTERNS. search pattern ''you idiot, you killed my plant''"
    using idiot_plant_general unfolding any_search_iff .
  from m b g apply_overrides_blocklist [OF m b] show ?thesis by blast
qed

lemma plant_meta: "\<not> any_search META_PATTERNS ''you killed my plant''"
  by (simp add: META_PATTERNS_def rx_eval)

lemma plant_block: "\<not> any_search BLOCKLIST_PATTERNS ''you killed my plant''"
  by (simp add: blocklist_defs rx_eval)

lemma plant_general: "any_search GENERAL_SAFELIST_PATTERNS ''you killed my plant''"
  by (simp add: safelist_defs rx_eval)

lemma nice_day_meta: "\<not> any_search META_PATTERNS ''Have a nice day!''"
  by (simp add: META_PATTERNS_def rx_eval)

lemma nice_day_block: "\<not> any_search BLOCKLIST_PATTERNS ''Have a nice day!''"
  by (simp add: blocklist_defs rx_eval)

lemma nice_day_general: "\<not> any_search GENERAL_SAFELIST_PATTERNS ''Have a nice day!''"
  by (simp add: safelist_defs rx_eval)

text \<open>
  C3. For a text that matches no meta-discussion and no blocklist pattern: with an
  incoming tier other than MEDIUM and HIGH (so with LOW and with VERY_LOW) the
  probability and the tier come back unchanged, also when a general-safelist pattern
  matches; with the incoming tier MEDIUM or HIGH and a general-safelist match the result
  is \<open>(0.01, OVERRIDE_SAFE)\<close>; with no general-safelist match the probability and the
  tier come back unchanged.
\<close>

theorem apply_overrides_general:
  assumes "\<not> (\<exists>pattern\<in>set META_PATTERNS. search pattern text)"
    and "\<not> (\<exists>pattern\<in>set BLOCKLIST_PATTERNS. search pattern text)"
  shows "(original_tier \<noteq> ''MEDIUM'' \<and> original_tier \<noteq> ''HIGH'' \<longrightarrow>
            apply_overrides text original_prob original_tier = (original_prob, original_tier)) \<and>
         ((original_tier = ''MEDIUM'' \<or> original_tier = ''HIGH'') \<and>
            (\<exists>pattern\<in>set GENERAL_SAFELIST_PATTERNS. search pattern text) \<longrightarrow>
            apply_overrides text original_prob original_tier = (Fin (1 / 100), ''OVERRIDE_SAFE'')) \<and>
         (\<not> (\<exists>pattern\<in>set GENERAL_SAFELIST_PATTERNS. search pattern text) \<longrightarrow>
            apply_overrides text original_prob original_tier = (original_prob, original_tier))"
  using assms by (auto simp add: apply_overrides_def any_search_iff)

theorem apply_overrides_general_witness:
  "\<not> (\<exists>pattern\<in>set META_PATTERNS. search pattern ''you killed my plant'') \<and>
   \<not> (\<exists>pattern\<in>set BLOCKLIST_PATTERNS. search pattern ''you killed my plant'') \<and>
   (\<exists>pattern\<in>set GENERAL_SAFELIST_PATTERNS. search pattern ''you killed my plant'') \<and>
   apply_overrides ''you killed my plant'' (Fin (3 / 100)) ''VERY_LOW'' = (Fin (3 / 100), ''VERY_LOW'') \<and>
   apply_overrides ''you killed my plant'' (Fin (20 / 100)) ''LOW'' = (Fin (20 / 100), ''LOW'') \<and>
   apply_overrides ''you killed my plant'' (Fin (50 / 100)) ''MEDIUM'' = (Fin (1 / 100), ''OVERRIDE_SAFE'') \<and>
   apply_overrides ''you killed my plant'' (Fin (90 / 100)) ''HIGH'' = (Fin (1 / 100), ''OVERRIDE_SAFE'') \<and>
   \<not> (\<exists>pattern\<in>set META_PATTERNS. search pattern ''Have a nice day!'') \<and>
   \<not> (\<exists>pattern\<in>set BLOCKLIST_PATTERNS. search pattern ''Have a nice day!'') \<and>
   \<not> (\<exists>pattern\<in>set GENERAL_SAFELIST_PATTERNS. search pattern ''Have a nice day!'') \<and>
   apply_overrides ''Have a nice day!'' (Fin (90 / 100)) ''HIGH'' = (Fin (90 / 100), ''HIGH'')"
proof -
  have m: "\<not> (\<exists>pattern\<in>set META_PATTERNS. search pattern ''you killed my plant'')"
    using plant_meta unfolding any_search_iff .
  have b: "\<not> (\<exists>pattern\<in>set BLOCKLIST_PATTERNS. search pattern ''you killed my plant'')"
    using plant_block unfolding any_search_iff .
  have g: "\<exists>pattern\<in>set GENERAL_SAFELIST_PATTERNS. search pattern ''you killed my plant''"
    using plant_general unfolding any_search_iff .
  have m': "\<not> (\<exists>pattern\<in>set META_PATTERNS. search pattern ''Have a nice day!'')"
    using nice_day_meta unfolding any_search_iff .
  have b': "\<not> (\<exists>pattern\<in>set BLOCKLIST_PATTERNS. search pattern ''Have a nice day!'')"
    using nice_day_block unfolding any_search_iff .
  have g': "\<not> (\<exists>pattern\<in>set GENERAL_SAFELIST_PATTERNS. search pattern ''Have a nice day!'')"
    using nice_day_general unfolding any_search_iff .
  have 1: "apply_overrides ''you killed my plant'' (Fin (3 / 100)) ''VERY_LOW'' = (Fin (3 / 100), ''VERY_LOW'')"
    using apply_overrides_general [OF m b, of "''VERY_LOW''" "Fin (3 / 100)"] by simp
  have 2: "apply_overrides ''you killed my plant'' (Fin (20 / 100)) ''LOW'' = (Fin (20 / 100), ''LOW'')"
    using apply_overrides_general [OF m b, of "''LOW''" "Fin (20 / 100)"] by simp
  have 3: "apply_overrides ''you killed my plant'' (Fin (50 / 100)) ''MEDIUM'' = (Fin (1 / 100), ''OVERRIDE_SAFE'')"
    using apply_overrides_general [OF m b, of "''MEDIUM''" "Fin (50 / 100)"] g by simp
  have 4: "apply_overrides ''you killed my plant'' (Fin (90 / 100)) ''HIGH'' = (Fin (1 / 100), ''OVERRIDE_SAFE'')"
    using apply_overrides_general [OF m b, of "''HIGH''" "Fin (90 / 100)"] g by simp
  have 5: "apply_overrides ''Have a nice day!'' (Fin (90 / 100)) ''HIGH'' = (Fin (90 / 100), ''HIGH'')"
    using apply_overrides_general [OF m' b', of "''HIGH''" "Fin (90 / 100)"] g' by simp
  from m b g 1 2 3 4 m' b' g' 5 show ?thesis by blast
qed

section \<open>The cascade\<close>

lemma fle_refl: "x \<noteq> NaN \<Longrightarrow> fle x x"
  by (cases x) simp_all

lemma fle_trans: "fle x y \<Longrightarrow> fle y z \<Longrightarrow> fle x z"
  by (cases x; cases y; cases z) simp_all

lemma flt_not_NaN: "flt x y \<Longrightarrow> x \<noteq> NaN \<and> y \<noteq> NaN"
  by (cases x; cases y) (simp_all add: flt_def)

lemma flt_not_fle: "flt x y \<Longrightarrow> \<not> fle y x"
  by (cases x; cases y) (auto simp add: flt_def)




text \<open>
  C5. With thresholds \<open>high > medium > low\<close>, the tier of a probability \<open>p\<close> is HIGH
  when \<open>p \<ge> high\<close>, else MEDIUM when \<open>p \<ge> medium\<close>, else LOW when \<open>p \<ge> low\<close>, else
  VERY_LOW; a probability equal to a threshold gets the tier of that threshold.
\<close>

theorem initial_tier_boundaries:
  assumes "flt (policy_medium A) (policy_high A)" and "flt (policy_low A) (policy_medium A)"
  shows "initial_tier A p =
           (if fle (policy_high A) p then ''HIGH''
            else if fle (policy_medium A) p then ''MEDIUM''
            else if fle (policy_low A) p then ''LOW'' else ''VERY_LOW'') \<and>
         (initial_tier A p = ''HIGH'' \<longleftrightarrow> fle (policy_high A) p) \<and>
         (initial_tier A p = ''MEDIUM'' \<longleftrightarrow> fle (policy_medium A) p \<and> \<not> fle (policy_high A) p) \<and>
         (initial_tier A p = ''LOW'' \<longleftrightarrow> fle (policy_low A) p \<and> \<not> fle (policy_medium A) p) \<and>
         (initial_tier A p = ''VERY_LOW'' \<longleftrightarrow> \<not> fle (policy_low A) p) \<and>
         initial_tier A (policy_high A) = ''HIGH'' \<and>
         initial_tier A (policy_medium A) = ''MEDIUM'' \<and>
         initial_tier A (policy_low A) = ''LOW''"
proof -
  have mh: "fle (policy_medium A) (policy_high A)" and lm: "fle (policy_low A) (policy_medium A)"
    using assms by (simp_all add: flt_def)
  have hm: "\<not> fle (policy_high A) (policy_medium A)" and ml: "\<not> fle (policy_medium A) (policy_low A)"
    using assms by (simp_all add: flt_not_fle)
  have hl: "\<not> fle (policy_high A) (policy_low A)"
    using hm lm fle_trans by blast
  have refl: "fle (policy_high A) (policy_high A)" "fle (policy_medium A) (policy_medium A)"
    "fle (policy_low A) (policy_low A)"
    using assms flt_not_NaN fle_refl by blast+
  have up: "fle (policy_high A) p \<Longrightarrow> fle (policy_medium A) p" "fle (policy_medium A) p \<Longrightarrow> fle (policy_low A) p"
    using mh lm fle_trans by blast+
  show ?thesis
    using hm ml hl refl up by (auto simp add: initial_tier_def)
qed

theorem initial_tier_boundaries_witness:
  "flt (Fin (50 / 100)) (Fin (80 / 100)) \<and> flt (Fin (20 / 100)) (Fin (50 / 100)) \<and>
   initial_tier (example_artifacts False NaN NaN) (Fin (80 / 100)) = ''HIGH'' \<and>
   initial_tier (example_artifacts False NaN NaN) (Fin (50 / 100)) = ''MEDIUM'' \<and>
   initial_tier (example_artifacts False NaN NaN) (Fin (20 / 100)) = ''LOW'' \<and>
   (initial_tier (example_artifacts False NaN NaN) NaN = ''VERY_LOW'') = (\<not> fle (Fin (20 / 100)) NaN)"
proof -
  have h: "flt (policy_medium (example_artifacts False NaN NaN)) (policy_high (example_artifacts False NaN NaN))"
    and l: "flt (policy_low (example_artifacts False NaN NaN)) (policy_medium (example_artifacts False NaN NaN))"
    by (simp_all add: example_artifacts_def flt_def)
  show ?thesis
    using initial_tier_boundaries [OF h l, of NaN] h l by (simp add: example_artifacts_def)
qed

section \<open>What a match consumes\<close>

lemma step_chr_consumes:
  "step_chr P k cont = Some x \<Longrightarrow> \<exists>k'. cont k' = Some x \<and> Suc (length (snd k')) \<le> length (snd k)"
proof (cases k)
  case (Pair p s)
  assume "step_chr P k cont = Some x"
  with Pair show ?thesis
    by (cases s) (auto split: if_splits)
qed

lemma rep_consumes:
  assumes body: "\<And>k cont x. f k cont = Some x \<Longrightarrow>
      \<exists>k'. cont k' = Some x \<and> length (snd k') + n \<le> length (snd k)"
  shows "rep f greedy lo hi k cont = Some x \<Longrightarrow>
      \<exists>k'. cont k' = Some x \<and> length (snd k') + lo * n \<le> length (snd k)"
proof (induction hi arbitrary: lo k cont x)
  case 0
  then have "lo = 0" "cont k = Some x"
    by (auto split: if_splits)
  then show ?case
    by (intro exI [of _ k]) simp
next
  case (Suc hi)
  show ?case
  proof (cases "0 < lo")
    case True
    with Suc.prems have "f k (\<lambda>k'. rep f greedy (lo - 1) hi k' cont) = Some x"
      by simp
    from body [OF this] obtain k1 where
      k1: "rep f greedy (lo - 1) hi k1 cont = Some x" "length (snd k1) + n \<le> length (snd k)"
      by blast
    from Suc.IH [OF k1(1)] obtain k' where
      k': "cont k' = Some x" "length (snd k') + (lo - 1) * n \<le> length (snd k1)"
      by blast
    have "lo * n = (lo - 1) * n + n"
      using True by (cases lo) simp_all
    with k' k1(2) show ?thesis
      by (intro exI [of _ k']) simp
  next
    case False
    then have lo: "lo = 0"
      by simp
    have more: "\<exists>k'. cont k' = Some x \<and> length (snd k') \<le> length (snd k)"
      if "f k (\<lambda>k'. rep f greedy 0 hi k' cont) = Some x"
    proof -
      from body [OF that] obtain k1 where
        k1: "rep f greedy 0 hi k1 cont = Some x" "length (snd k1) + n \<le> length (snd k)"
        by blast
      from Suc.IH [OF k1(1)] obtain k' where "cont k' = Some x" "length (snd k') \<le> length (snd k1)"
        by auto
      with k1(2) show ?thesis
        by (intro exI [of _ k']) simp
    qed
    from Suc.prems lo have
      "f k (\<lambda>k'. rep f greedy 0 hi k' cont) = Some x \<or> cont k = Some x"
      by (auto split: if_splits option.splits)
    then show ?thesis
    proof
      assume "f k (\<lambda>k'. rep f greedy 0 hi k' cont) = Some x"
      from more [OF this] lo show ?thesis
        by simp
    next
      assume "cont k = Some x"
      with lo show ?thesis
        by (intro exI [of _ k]) simp
    qed
  qed
qed

lemma rm_consumes:
  "rm r k cont = Some x \<Longrightarrow> \<exists>k'. cont k' = Some x \<and> length (snd k') + min_width r \<le> length (snd k)"
proof (induction r arbitrary: k cont x)
  case Eps
  then show ?case by (intro exI [of _ k]) simp
next
  case (Lit c)
  then show ?case using step_chr_consumes [of "\<lambda>x. x = c" k cont x] by auto
next
  case (LitI c)
  then show ?case using step_chr_consumes [of "\<lambda>x. lower_chr x = lower_chr c" k cont x] by auto
next
  case (Cls P)
  then show ?case using step_chr_consumes [of P k cont x] by auto
next
  case WordB
  then have "cont k = Some x"
    by (auto split: if_splits)
  then show ?case by (intro exI [of _ k]) simp
next
  case (Cat a b)
  from Cat.prems have "rm a k (\<lambda>k'. rm b k' cont) = Some x"
    by simp
  from Cat.IH(1) [OF this] obtain k1 where
    k1: "rm b k1 cont = Some x" "length (snd k1) + min_width a \<le> length (snd k)"
    by blast
  from Cat.IH(2) [OF k1(1)] obtain k' where
    "cont k' = Some x" "length (snd k') + min_width b \<le> length (snd k1)"
    by blast
  with k1(2) show ?case
    by (intro exI [of _ k']) simp
next
  case (Alt a b)
  from Alt.prems have "rm a k cont = Some x \<or> rm b k cont = Some x"
    by (auto split: option.splits)
  then show ?case
  proof
    assume "rm a k cont = Some x"
    from Alt.IH(1) [OF this] obtain k' where
      "cont k' = Some x" "length (snd k') + min_width a \<le> length (snd k)"
      by blast
    then show ?thesis
      by (intro exI [of _ k']) simp
  next
    assume "rm b k cont = Some x"
    from Alt.IH(2) [OF this] obtain k' where
      "cont k' = Some x" "length (snd k') + min_width b \<le> length (snd k)"
      by blast
    then show ?thesis
      by (intro exI [of _ k']) simp
  qed
next
  case (Rep lo hi greedy r)
  from Rep.prems have
    "rep (rm r) greedy lo (case hi of None \<Rightarrow> lo + length (snd k) | Some h \<Rightarrow> h) k cont = Some x"
    by simp
  from rep_consumes [of "rm r" "min_width r", OF Rep.IH this] show ?case
    by simp
qed

lemma match_at_consumes:
  "match_at r k = Some k' \<Longrightarrow> length (snd k') + min_width r \<le> length (snd k)"
  using rm_consumes [of r k Some k'] by (auto simp add: match_at_def)

lemma scan_spans:
  "(s, e) \<in> set (scan r pos skip p tx) \<Longrightarrow> pos \<le> s \<and> s + min_width r \<le> e \<and> e \<le> pos + length tx"
proof (induction tx arbitrary: pos skip p)
  case Nil
  then have *: "s = pos \<and> e = pos \<and> match_at r (p, []) \<noteq> None"
    by (cases "skip = 0"; cases "match_at r (p, [])") simp_all
  then obtain k where "match_at r (p, []) = Some k"
    by auto
  from match_at_consumes [OF this] have "min_width r = 0"
    by simp
  with * show ?case
    by simp
next
  case (Cons c cs)
  show ?case
  proof (cases "0 < skip")
    case True
    with Cons.prems have "(s, e) \<in> set (scan r (Suc pos) (skip - 1) (Some c) cs)"
      by simp
    from Cons.IH [OF this] show ?thesis
      by simp
  next
    case False
    show ?thesis
    proof (cases "match_at r (p, c # cs)")
      case None
      with False Cons.prems have "(s, e) \<in> set (scan r (Suc pos) 0 (Some c) cs)"
        by simp
      from Cons.IH [OF this] show ?thesis
        by simp
    next
      case (Some k)
      from match_at_consumes [OF Some] have w: "length (snd k) + min_width r \<le> Suc (length cs)"
        by simp
      from False Some Cons.prems have
        "(s, e) = (pos, pos + (Suc (length cs) - length (snd k))) \<or>
         (s, e) \<in> set (scan r (Suc pos) (Suc (length cs) - length (snd k) - 1) (Some c) cs)"
        by (simp add: Let_def)
      then show ?thesis
      proof
        assume "(s, e) = (pos, pos + (Suc (length cs) - length (snd k)))"
        with w show ?thesis
          by auto
      next
        assume "(s, e) \<in> set (scan r (Suc pos) (Suc (length cs) - length (snd k) - 1) (Some c) cs)"
        from Cons.IH [OF this] show ?thesis
          by simp
      qed
    qed
  qed
qed

lemma finditer_spans:
  "(s, e) \<in> set (finditer r tx) \<Longrightarrow> s + min_width r \<le> e \<and> e \<le> length tx"
  using scan_spans [of s e r 0 0 None tx] by (simp add: finditer_def)

lemma min_width_CARD_RE: "min_width CARD_RE = 13"
  by (simp add: CARD_RE_def cat_def)

section \<open>The Luhn checksum\<close>

lemma luhn_term_parity: "luhn_term (Suc (Suc i)) d = luhn_term i d"
  by (simp add: luhn_term_def)

lemma luhn_loop_sum:
  "luhn_loop ds checksum is_alt =
     checksum + (\<Sum>i<length ds. luhn_term (i + (if is_alt then 1 else 0)) (ds ! i))"
proof (induction ds arbitrary: checksum is_alt)
  case Nil
  show ?case by simp
next
  case (Cons d ds)
  have first: "(if is_alt then (if d * 2 > 9 then d * 2 - 9 else d * 2) else d)
      = luhn_term (if is_alt then 1 else 0) d"
    by (simp add: luhn_term_def)
  have shift: "luhn_term (Suc i + (if is_alt then 1 else 0)) x = luhn_term (i + (if \<not> is_alt then 1 else 0)) x"
    for i x
    by (simp add: luhn_term_parity)
  have "luhn_loop (d # ds) checksum is_alt
      = checksum + luhn_term (if is_alt then 1 else 0) d
        + (\<Sum>i<length ds. luhn_term (i + (if \<not> is_alt then 1 else 0)) (ds ! i))"
    by (simp only: luhn_loop.simps Let_def first Cons.IH)
  also have "\<dots> = checksum + (\<Sum>i<length (d # ds). luhn_term (i + (if is_alt then 1 else 0)) ((d # ds) ! i))"
    by (simp add: sum.lessThan_Suc_shift luhn_term_parity del: sum.lessThan_Suc)
  finally show ?case .
qed

lemma luhn_ok_sum:
  "luhn_ok card_number \<longleftrightarrow>
     13 \<le> length (digits_only card_number) \<and> length (digits_only card_number) \<le> 19 \<and>
     luhn_sum (map int_of_digit (digits_only card_number)) mod 10 = 0"
  by (auto simp add: luhn_ok_def luhn_sum_def luhn_loop_sum Let_def)

lemma luhn_valid_example: "luhn_ok ''4111111111111111''"
  by (simp add: luhn_ok_def digits_only_def int_of_digit_def isdecimal_tab)

lemma luhn_invalid_example: "\<not> luhn_ok ''4111111111111112''"
  by (simp add: luhn_ok_def digits_only_def int_of_digit_def isdecimal_tab)

section \<open>Card detection\<close>

lemmas pii_eval =
  email_hits_def phone_hits_def card_hits_def guarded_spans_def finditer_def
  EMAIL_RE_def CARD_RE_def URL_RE_def CODE_RE_def ID_HINT_def PHONE_RE_def
  group0_def slice_def digits_only_def

lemma overlaps_iff:
  "overlaps sp spans \<longleftrightarrow> (\<exists>g\<in>set spans. \<not> (snd sp \<le> fst g \<or> fst sp \<ge> snd g))"
proof (cases sp)
  case (Pair start end')
  show ?thesis
    unfolding Pair by (induction spans) auto
qed

lemma card_hit_iff:
  "(''CARD'', sp, v) \<in> set (detect_pii phone (PyStr tx)) \<longleftrightarrow>
     sp \<in> set (finditer CARD_RE tx) \<and> \<not> overlaps sp (guarded_spans tx) \<and>
     v = digits_only (group0 tx sp) \<and> luhn_ok v"
  by (auto simp add: email_hits_def phone_hits_def card_hits_def Let_def
      split: option.splits if_splits)

lemma guarded_candidate_no_hit:
  assumes "m \<in> set (finditer CARD_RE tx)" and "g \<in> set (guarded_spans tx)"
    and "fst g \<le> fst m" and "snd m \<le> snd g"
  shows "(''CARD'', m, v) \<notin> set (detect_pii phone (PyStr tx))"
proof -
  from assms(1) have "(fst m, snd m) \<in> set (finditer CARD_RE tx)"
    by simp
  from finditer_spans [OF this] have "fst m < snd m"
    by (simp add: min_width_CARD_RE)
  with assms(3,4) have "\<not> (snd m \<le> fst g \<or> fst m \<ge> snd g)"
    by auto
  with assms(2) have "overlaps m (guarded_spans tx)"
    unfolding overlaps_iff by blast
  then show ?thesis
    by (simp add: card_hit_iff del: detect_pii.simps)
qed

text \<open>A card number alone is a hit; between two fences, and nothing else, it is not.\<close>

lemma card_alone_is_hit:
  "detect_pii None (PyStr ''4111111111111111'') = [(''CARD'', (0, 16), ''4111111111111111'')]"
  by (simp add: pii_eval rx_eval luhn_valid_example)

lemma fenced_card_guards: "guarded_spans ''```4111111111111111```'' = [(0, 22)]"
  by (simp add: pii_eval rx_eval)

lemma fenced_card_no_hits: "detect_pii None (PyStr ''```4111111111111111```'') = []"
  by (simp add: pii_eval rx_eval)

text \<open>
  The code pattern pairs backquotes from left to right. A single backquote earlier in
  the text pairs with the first backquote of a fence, the two that are left of the fence
  make an empty inline span, and the text between the fences is in no match.
\<close>

lemma backquote_guards: "guarded_spans ''it`s ```4111111111111111```'' = [(2, 6), (6, 8), (24, 26)]"
  by (simp add: pii_eval rx_eval)

lemma backquote_card_spans: "finditer CARD_RE ''it`s ```4111111111111111```'' = [(8, 24)]"
  by (simp add: pii_eval rx_eval)

lemma backquote_card_digits:
  "digits_only (group0 ''it`s ```4111111111111111```'' (8, 24)) = ''4111111111111111''"
  by (simp add: pii_eval isdecimal_tab)

text \<open>
  C7. In the text \<open>it`s ```4111111111111111```\<close> a 16-digit sequence stands between two
  fences of three backquotes, and \<open>detect_pii\<close> reports it as a CARD hit, with or without
  the phone library: the matches of the code pattern are \<open>(2, 6)\<close>, \<open>(6, 8)\<close> and
  \<open>(24, 26)\<close>, there is no URL and no ID hint, the card pattern matches \<open>(8, 24)\<close>, which
  overlaps no guarded span, and the digits pass the Luhn check. The claim says that a
  16-digit sequence inside a fenced code block never becomes a CARD hit.
\<close>

theorem fenced_card_after_backquote_is_hit:
  "finditer CODE_RE ''it`s ```4111111111111111```'' = [(2, 6), (6, 8), (24, 26)] \<and>
   guarded_spans ''it`s ```4111111111111111```'' = [(2, 6), (6, 8), (24, 26)] \<and>
   finditer CARD_RE ''it`s ```4111111111111111```'' = [(8, 24)] \<and>
   group0 ''it`s ```4111111111111111```'' (5, 27) = ''```4111111111111111```'' \<and>
   luhn_ok ''4111111111111111'' \<and>
   (''CARD'', (8, 24), ''4111111111111111'') \<in> set (detect_pii phone (PyStr ''it`s ```4111111111111111```'')) \<and>
   detect_pii None (PyStr ''it`s ```4111111111111111```'') = [(''CARD'', (8, 24), ''4111111111111111'')]"
proof -
  have code: "finditer CODE_RE ''it`s ```4111111111111111```'' = [(2, 6), (6, 8), (24, 26)]"
    by (simp add: pii_eval rx_eval)
  have fence: "group0 ''it`s ```4111111111111111```'' (5, 27) = ''```4111111111111111```''"
    by (simp add: group0_def slice_def)
  have free: "\<not> overlaps (8, 24) (guarded_spans ''it`s ```4111111111111111```'')"
    unfolding backquote_guards by simp
  have cand: "(8, 24) \<in> set (finditer CARD_RE ''it`s ```4111111111111111```'')"
    unfolding backquote_card_spans by simp
  have hit: "(''CARD'', (8, 24), ''4111111111111111'')
      \<in> set (detect_pii phone (PyStr ''it`s ```4111111111111111```''))"
    unfolding card_hit_iff using cand free backquote_card_digits luhn_valid_example by simp
  have all: "detect_pii None (PyStr ''it`s ```4111111111111111```'') = [(''CARD'', (8, 24), ''4111111111111111'')]"
    by (simp add: pii_eval rx_eval luhn_valid_example)
  from code backquote_guards backquote_card_spans fence luhn_valid_example hit all show ?thesis
    by (intro conjI)
qed

section \<open>Redaction\<close>

lemma hit_parts [simp]:
  "start_of (kind, (start, end'), v) = start"
  "end_of (kind, (start, end'), v) = end'"
  "span_of (kind, (start, end'), v) = (start, end')"
  "mask_of (kind, (start, end'), v) = mask kind v"
  by (simp_all add: start_of_def end_of_def span_of_def mask_of_def)

lemma redact_loop_weave:
  "redact_loop tx last_index hs = weave (copied tx last_index hs) (map mask_of hs)"
  by (induction tx last_index hs rule: redact_loop.induct) simp_all

lemma length_copied: "length (copied tx last_index hs) = Suc (length hs)"
  by (induction tx last_index hs rule: copied.induct) simp_all

lemma redact_weave:
  "redact tx hits = weave (copied tx 0 (sort_key start_of hits)) (map mask_of (sort_key start_of hits))"
  by (simp add: redact_def redact_loop_weave)

lemma copied_nth:
  "Suc i < length hs \<Longrightarrow>
     copied tx last_index hs ! Suc i = slice tx (end_of (hs ! i)) (start_of (hs ! Suc i))"
proof (induction tx last_index hs arbitrary: i rule: copied.induct)
  case (1 tx last_index)
  then show ?case by simp
next
  case (2 tx last_index kind start end' v rest)
  show ?case
  proof (cases i)
    case 0
    with "2.prems" obtain h rest' where "rest = h # rest'"
      by (cases rest) auto
    then show ?thesis
      using 0 by (cases h) auto
  next
    case (Suc j)
    with "2.prems" have "Suc j < length rest"
      by simp
    from "2.IH" [OF this] Suc show ?thesis
      by simp
  qed
qed

subsection \<open>Characters picked by their offsets\<close>

lemma nths_cong_on: "(\<And>i. i < length xs \<Longrightarrow> i \<in> A \<longleftrightarrow> i \<in> B) \<Longrightarrow> nths xs A = nths xs B"
  unfolding nths_def by (auto intro!: arg_cong [where f = "map fst"] filter_cong dest: set_zip_rightD)

lemma nths_none: "(\<And>i. i < length xs \<Longrightarrow> i \<notin> A) \<Longrightarrow> nths xs A = []"
  using nths_cong_on [of xs A "{}"] by simp

lemma nths_mono_subseq:
  assumes "A \<subseteq> B"
  shows "subseq (nths xs A) (nths xs B)"
proof -
  have "filter (\<lambda>p. snd p \<in> A) (zip xs [0..<length xs])
      = filter (\<lambda>p. snd p \<in> A) (filter (\<lambda>p. snd p \<in> B) (zip xs [0..<length xs]))"
    using assms by (auto intro: filter_cong)
  then have "nths xs A = map fst (filter (\<lambda>p. snd p \<in> A) (filter (\<lambda>p. snd p \<in> B) (zip xs [0..<length xs])))"
    by (simp only: nths_def)
  moreover have "subseq (map fst (filter (\<lambda>p. snd p \<in> A) (filter (\<lambda>p. snd p \<in> B) (zip xs [0..<length xs]))))
      (map fst (filter (\<lambda>p. snd p \<in> B) (zip xs [0..<length xs])))"
    by (intro subseq_map subseq_filter_left)
  ultimately show ?thesis
    by (simp only: nths_def)
qed

lemma nths_split_at:
  "nths xs A = nths (take n xs) A @ nths (drop n xs) {j. j + length (take n xs) \<in> A}"
  using nths_append [of "take n xs" "drop n xs" A] by simp

lemma slice_nths: "slice tx a b = nths (take b tx) {i. a \<le> i}"
  by (simp add: slice_def drop_take flip: drop_eq_nths)

subsection \<open>What is copied\<close>

lemma copied_subseq:
  "subseq (nths tx ({i. last_index \<le> i} - covered hs)) (concat (copied tx last_index hs))"
proof (induction hs arbitrary: last_index)
  case Nil
  show ?case
    by (simp add: covered_def flip: drop_eq_nths)
next
  case (Cons h hs)
  obtain kind s e v where h: "h = (kind, (s, e), v)"
    by (cases h) auto
  let ?A = "{i. last_index \<le> i} - covered (h # hs)"
  let ?B = "{i. e \<le> i} - covered hs"
  have A: "i \<in> ?A \<longleftrightarrow> last_index \<le> i \<and> \<not> (s \<le> i \<and> i < e) \<and> i \<notin> covered hs" for i
    by (auto simp add: covered_def h)
  have first: "subseq (nths (take s tx) ?A) (slice tx last_index s)"
    unfolding slice_nths by (rule nths_mono_subseq) auto
  have second: "subseq (nths (drop s tx) {j. j + length (take s tx) \<in> ?A}) (concat (copied tx e hs))"
  proof (cases "s \<le> length tx")
    case True
    then have len: "length (take s tx) = s"
      by simp
    have "j + s \<in> ?A \<Longrightarrow> j + s \<in> ?B" for j
      unfolding A by auto
    then have "{j. j + s \<in> ?A} \<subseteq> {j. j + s \<in> ?B}"
      by blast
    then have "subseq (nths (drop s tx) {j. j + s \<in> ?A}) (nths (drop s tx) {j. j + s \<in> ?B})"
      by (rule nths_mono_subseq)
    also have "subseq (nths (drop s tx) {j. j + s \<in> ?B}) (nths tx ?B)"
      using nths_split_at [of tx ?B s] len by (simp add: list_emb_append2)
    also note Cons.IH [of e]
    finally show ?thesis
      by (simp only: len)
  next
    case False
    then show ?thesis
      by simp
  qed
  have "nths tx ?A = nths (take s tx) ?A @ nths (drop s tx) {j. j + length (take s tx) \<in> ?A}"
    by (rule nths_split_at)
  with list_emb_append_mono [OF first second] show ?case
    by (simp add: h)
qed

lemma copied_exact:
  assumes "sorted_wrt (\<lambda>h r. end_of h \<le> start_of r) hs"
    and "\<forall>h\<in>set hs. start_of h \<le> end_of h"
    and "\<forall>h\<in>set hs. last_index \<le> start_of h"
  shows "concat (copied tx last_index hs) = nths tx ({i. last_index \<le> i} - covered hs)"
  using assms
proof (induction hs arbitrary: last_index)
  case Nil
  show ?case
    by (simp add: covered_def flip: drop_eq_nths)
next
  case (Cons h hs)
  obtain kind s e v where h: "h = (kind, (s, e), v)"
    by (cases h) auto
  from Cons.prems h have le: "last_index \<le> s" "s \<le> e" and later: "\<forall>r\<in>set hs. e \<le> start_of r"
    by auto
  let ?A = "{i. last_index \<le> i} - covered (h # hs)"
  let ?B = "{i. e \<le> i} - covered hs"
  have before: "i \<notin> covered hs" if "i < e" for i
    using that later by (auto simp add: covered_def)
  have A: "i \<in> ?A \<longleftrightarrow> last_index \<le> i \<and> \<not> (s \<le> i \<and> i < e) \<and> i \<notin> covered hs" for i
    by (auto simp add: covered_def h)
  have IH: "concat (copied tx e hs) = nths tx ?B"
    using Cons.prems later by (intro Cons.IH) auto
  have first: "nths (take s tx) ?A = slice tx last_index s"
    unfolding slice_nths
  proof (rule nths_cong_on)
    fix i assume "i < length (take s tx)"
    then have "i < s"
      by simp
    with le before [of i] have "i \<notin> covered hs" "\<not> (s \<le> i \<and> i < e)"
      by auto
    then show "i \<in> ?A \<longleftrightarrow> i \<in> {i. last_index \<le> i}"
      unfolding A by simp
  qed
  have second: "nths (drop s tx) {j. j + length (take s tx) \<in> ?A} = nths tx ?B"
  proof (cases "s \<le> length tx")
    case True
    then have len: "length (take s tx) = s"
      by simp
    have "nths (take s tx) ?B = []"
      using le by (intro nths_none) auto
    then have "nths tx ?B = nths (drop s tx) {j. j + s \<in> ?B}"
      using nths_split_at [of tx ?B s] len by simp
    moreover have "j + s \<in> ?A \<longleftrightarrow> j + s \<in> ?B" for j
      unfolding A using le by auto
    then have "{j. j + s \<in> ?A} = {j. j + s \<in> ?B}"
      by simp
    ultimately show ?thesis
      by (simp only: len)
  next
    case False
    with le have "nths tx ?B = []"
      by (intro nths_none) auto
    with False show ?thesis
      by simp
  qed
  have "nths tx ?A = nths (take s tx) ?A @ nths (drop s tx) {j. j + length (take s tx) \<in> ?A}"
    by (rule nths_split_at)
  with first second IH show ?case
    by (simp add: h)
qed

subsection \<open>Sorting hits that do not overlap\<close>

lemma sorted_wrt_insort_key_sym:
  assumes "\<And>x y. P x y \<Longrightarrow> P y x"
  shows "sorted_wrt P (insort_key f x xs) \<longleftrightarrow> (\<forall>y\<in>set xs. P x y) \<and> sorted_wrt P xs"
  using assms by (induction xs) (auto simp add: set_insort_key)

lemma sorted_wrt_sort_key_sym:
  assumes "\<And>x y. P x y \<Longrightarrow> P y x"
  shows "sorted_wrt P (sort_key f xs) \<longleftrightarrow> sorted_wrt P xs"
  by (induction xs) (simp_all add: sorted_wrt_insort_key_sym [of P, OF assms])

lemma non_overlapping_sorted_wrt:
  "non_overlapping hs \<longleftrightarrow>
     sorted_wrt (\<lambda>h r. end_of h \<le> start_of r \<or> end_of r \<le> start_of h) hs"
  by (induction hs) (auto simp add: overlaps_iff span_of_def start_of_def end_of_def)

lemma sorted_wrt_both:
  "sorted_wrt P xs \<Longrightarrow> sorted_wrt Q xs \<Longrightarrow> sorted_wrt (\<lambda>x y. P x y \<and> Q x y) xs"
  by (induction xs) auto

lemma sorted_hits_separated:
  assumes "non_overlapping hits" and "\<forall>h\<in>set hits. start_of h < end_of h"
  shows "sorted_wrt (\<lambda>h r. end_of h \<le> start_of r) (sort_key start_of hits)"
proof -
  have "sorted_wrt (\<lambda>h r. end_of h \<le> start_of r \<or> end_of r \<le> start_of h) (sort_key start_of hits)"
    using assms(1) by (simp add: non_overlapping_sorted_wrt sorted_wrt_sort_key_sym [where f = start_of] disj_commute)
  moreover have "sorted_wrt (\<lambda>h r. start_of h \<le> start_of r) (sort_key start_of hits)"
    using sorted_sort_key [of start_of hits] by (simp add: sorted_map)
  ultimately have "sorted_wrt (\<lambda>h r. (end_of h \<le> start_of r \<or> end_of r \<le> start_of h) \<and>
      start_of h \<le> start_of r) (sort_key start_of hits)"
    by (rule sorted_wrt_both)
  then show ?thesis
  proof (rule sorted_wrt_mono_rel [rotated])
    fix h r
    assume "h \<in> set (sort_key start_of hits)" "r \<in> set (sort_key start_of hits)"
      and "(end_of h \<le> start_of r \<or> end_of r \<le> start_of h) \<and> start_of h \<le> start_of r"
    with assms(2) show "end_of h \<le> start_of r"
      by fastforce
  qed
qed

lemma covered_sort_key: "covered (sort_key f hits) = covered hits"
  by (simp add: covered_def)

lemmas redact_eval =
  redact_def slice_def mask_def partition_at_def last_n_def digits_only_def isdecimal_tab

text \<open>
  C8. \<open>redact(text, [])\<close> is the text. For every list of hits the output is the copied
  slices of the text woven with the masks of the hits, one slice more than there are
  hits, and the characters outside all spans, in their order, are a subsequence of what is
  copied. When the hits do not overlap and every span holds at least one character and
  ends inside the text, what is copied is exactly the characters outside the spans: the
  spans, and nothing else, are replaced by the masks.
\<close>

theorem redact_frame:
  "redact tx [] = tx \<and>
   redact tx hits = weave (copied tx 0 (sort_key start_of hits)) (map mask_of (sort_key start_of hits)) \<and>
   length (copied tx 0 (sort_key start_of hits)) = Suc (length hits) \<and>
   subseq (outside tx hits) (concat (copied tx 0 (sort_key start_of hits))) \<and>
   (non_overlapping hits \<and> (\<forall>h\<in>set hits. start_of h < end_of h \<and> end_of h \<le> length tx) \<longrightarrow>
      concat (copied tx 0 (sort_key start_of hits)) = outside tx hits)"
proof -
  have sub: "subseq (outside tx hits) (concat (copied tx 0 (sort_key start_of hits)))"
    using copied_subseq [of tx 0 "sort_key start_of hits"]
    by (simp add: outside_def covered_sort_key Compl_eq_Diff_UNIV)
  have exact: "concat (copied tx 0 (sort_key start_of hits)) = outside tx hits"
    if "non_overlapping hits" and "\<forall>h\<in>set hits. start_of h < end_of h \<and> end_of h \<le> length tx"
  proof -
    from that have "sorted_wrt (\<lambda>h r. end_of h \<le> start_of r) (sort_key start_of hits)"
      by (intro sorted_hits_separated) auto
    moreover from that have "\<forall>h\<in>set (sort_key start_of hits). start_of h \<le> end_of h"
      by (auto intro: less_imp_le)
    ultimately have "concat (copied tx 0 (sort_key start_of hits))
        = nths tx ({i. 0 \<le> i} - covered (sort_key start_of hits))"
      by (intro copied_exact) auto
    then show ?thesis
      by (simp add: outside_def covered_sort_key Compl_eq_Diff_UNIV)
  qed
  show ?thesis
    using sub exact by (simp add: redact_weave length_copied)
qed

theorem redact_frame_witness:
  "non_overlapping [(''CARD'', (20, 36), ''4111111111111111''), (''EMAIL'', (5, 14), ''jo@ex.com'')] \<and>
   start_of (''CARD'', (20, 36), ''4111111111111111'') < end_of (''CARD'', (20, 36), ''4111111111111111'') \<and>
   end_of (''CARD'', (20, 36), ''4111111111111111'') \<le> length ''mail jo@ex.com card 4111111111111111 ok'' \<and>
   start_of (''EMAIL'', (5, 14), ''jo@ex.com'') < end_of (''EMAIL'', (5, 14), ''jo@ex.com'') \<and>
   end_of (''EMAIL'', (5, 14), ''jo@ex.com'') \<le> length ''mail jo@ex.com card 4111111111111111 ok'' \<and>
   redact ''mail jo@ex.com card 4111111111111111 ok''
     [(''CARD'', (20, 36), ''4111111111111111''), (''EMAIL'', (5, 14), ''jo@ex.com'')]
     = ''mail jo***@ex.com card **** **** **** 1111 ok'' \<and>
   outside ''mail jo@ex.com card 4111111111111111 ok''
     [(''CARD'', (20, 36), ''4111111111111111''), (''EMAIL'', (5, 14), ''jo@ex.com'')]
     = ''mail  card  ok''"
proof -
  have n: "non_overlapping [(''CARD'', (20, 36), ''4111111111111111''), (''EMAIL'', (5, 14), ''jo@ex.com'')]"
    by simp
  have b: "\<forall>h\<in>set [(''CARD'', (20, 36), ''4111111111111111''), (''EMAIL'', (5, 14), ''jo@ex.com'')].
      start_of h < end_of h \<and> end_of h \<le> length ''mail jo@ex.com card 4111111111111111 ok''"
    by simp
  have r: "redact ''mail jo@ex.com card 4111111111111111 ok''
     [(''CARD'', (20, 36), ''4111111111111111''), (''EMAIL'', (5, 14), ''jo@ex.com'')]
     = ''mail jo***@ex.com card **** **** **** 1111 ok''"
    by (simp add: redact_eval)
  have c: "concat (copied ''mail jo@ex.com card 4111111111111111 ok'' 0
      (sort_key start_of [(''CARD'', (20, 36), ''4111111111111111''), (''EMAIL'', (5, 14), ''jo@ex.com'')]))
     = ''mail  card  ok''"
    by (simp add: slice_def)
  have e: "concat (copied ''mail jo@ex.com card 4111111111111111 ok'' 0
      (sort_key start_of [(''CARD'', (20, 36), ''4111111111111111''), (''EMAIL'', (5, 14), ''jo@ex.com'')]))
     = outside ''mail jo@ex.com card 4111111111111111 ok''
         [(''CARD'', (20, 36), ''4111111111111111''), (''EMAIL'', (5, 14), ''jo@ex.com'')]"
    using redact_frame [of "''mail jo@ex.com card 4111111111111111 ok''"
        "[(''CARD'', (20, 36), ''4111111111111111''), (''EMAIL'', (5, 14), ''jo@ex.com'')]"] n b
    by blast
  from e [symmetric] c have "outside ''mail jo@ex.com card 4111111111111111 ok''
     [(''CARD'', (20, 36), ''4111111111111111''), (''EMAIL'', (5, 14), ''jo@ex.com'')]
     = ''mail  card  ok''"
    by (rule trans)
  with n b r show ?thesis
    by simp
qed

text \<open>
  C9, as the claim states it, fails: \<open>redact\<close> neither rejects nor drops a hit that
  overlaps another. With an EMAIL hit at \<open>(0, 5)\<close> and a CARD hit at \<open>(3, 8)\<close> both
  masks are in the output, which differs from the output for either hit alone. For two
  hits that start at the same offset the output depends on the order of the list, not on
  the kind names.
\<close>

theorem redact_overlap_not_dropped:
  "redact ''abcdefghij'' [(''EMAIL'', (0, 5), ''ab@cd''), (''CARD'', (3, 8), ''4111111111111111'')]
     = ''ab***@cd**** **** **** 1111ij'' \<and>
   redact ''abcdefghij'' [(''EMAIL'', (0, 5), ''ab@cd''), (''CARD'', (3, 8), ''4111111111111111'')]
     \<noteq> redact ''abcdefghij'' [(''EMAIL'', (0, 5), ''ab@cd'')] \<and>
   redact ''abcdefghij'' [(''EMAIL'', (0, 5), ''ab@cd''), (''CARD'', (3, 8), ''4111111111111111'')]
     \<noteq> redact ''abcdefghij'' [(''CARD'', (3, 8), ''4111111111111111'')] \<and>
   redact ''abcdefghij'' [(''EMAIL'', (0, 5), ''ab@cd''), (''CARD'', (0, 3), ''4111111111111111'')]
     \<noteq> redact ''abcdefghij'' [(''CARD'', (0, 3), ''4111111111111111''), (''EMAIL'', (0, 5), ''ab@cd'')]"
  by (simp add: redact_eval)

text \<open>
  C9, amended. \<open>redact\<close> does not reject or deduplicate overlapping hits. It applies the
  mask of every hit of the list exactly once, in ascending order of the start offsets,
  hits with the same start offset in the order of the list (the kind name is not looked
  at). Between two consecutive hits it copies the text from the end of the first to the
  start of the second, which is nothing when the second starts before the first ends.
\<close>

theorem redact_applies_every_hit:
  "redact tx hits = weave (copied tx 0 (sort_key start_of hits)) (map mask_of (sort_key start_of hits)) \<and>
   mset (sort_key start_of hits) = mset hits \<and>
   sorted (map start_of (sort_key start_of hits)) \<and>
   (\<forall>k. filter (\<lambda>h. start_of h = k) (sort_key start_of hits) = filter (\<lambda>h. start_of h = k) hits) \<and>
   (\<forall>i. Suc i < length hits \<longrightarrow>
      copied tx 0 (sort_key start_of hits) ! Suc i
        = slice tx (end_of (sort_key start_of hits ! i)) (start_of (sort_key start_of hits ! Suc i)) \<and>
      (start_of (sort_key start_of hits ! Suc i) \<le> end_of (sort_key start_of hits ! i) \<longrightarrow>
         copied tx 0 (sort_key start_of hits) ! Suc i = []))"
  by (simp add: redact_weave sort_key_stable copied_nth slice_def)

theorem redact_applies_every_hit_witness:
  "Suc 0 < length [(''CARD'', (3, 8), ''4111111111111111''), (''EMAIL'', (0, 5), ''ab@cd'')] \<and>
   sort_key start_of [(''CARD'', (3, 8), ''4111111111111111''), (''EMAIL'', (0, 5), ''ab@cd'')]
     = [(''EMAIL'', (0, 5), ''ab@cd''), (''CARD'', (3, 8), ''4111111111111111'')] \<and>
   copied ''abcdefghij'' 0
     (sort_key start_of [(''CARD'', (3, 8), ''4111111111111111''), (''EMAIL'', (0, 5), ''ab@cd'')]) ! Suc 0 = [] \<and>
   redact ''abcdefghij'' [(''CARD'', (3, 8), ''4111111111111111''), (''EMAIL'', (0, 5), ''ab@cd'')]
     = weave ['''', '''', ''ij''] [''ab***@cd'', ''**** **** **** 1111'']"
proof -
  have s: "sort_key start_of [(''CARD'', (3, 8), ''4111111111111111''), (''EMAIL'', (0, 5), ''ab@cd'')]
     = [(''EMAIL'', (0, 5), ''ab@cd''), (''CARD'', (3, 8), ''4111111111111111'')]"
    by simp
  have l: "Suc 0 < length [(''CARD'', (3, 8), ''4111111111111111''), (''EMAIL'', (0, 5), ''ab@cd'')]"
    by simp
  have m: "map mask_of [(''EMAIL'', (0, 5), ''ab@cd''), (''CARD'', (3, 8), ''4111111111111111'')]
     = [''ab***@cd'', ''**** **** **** 1111'']"
    by (simp add: redact_eval)
  have c: "copied ''abcdefghij'' 0 [(''EMAIL'', (0, 5), ''ab@cd''), (''CARD'', (3, 8), ''4111111111111111'')]
     = ['''', '''', ''ij'']"
    by (simp add: slice_def)
  from redact_applies_every_hit [of "''abcdefghij''"
      "[(''CARD'', (3, 8), ''4111111111111111''), (''EMAIL'', (0, 5), ''ab@cd'')]"] l
  have "copied ''abcdefghij'' 0
     (sort_key start_of [(''CARD'', (3, 8), ''4111111111111111''), (''EMAIL'', (0, 5), ''ab@cd'')]) ! Suc 0 = []"
    and "redact ''abcdefghij'' [(''CARD'', (3, 8), ''4111111111111111''), (''EMAIL'', (0, 5), ''ab@cd'')]
     = weave (copied ''abcdefghij'' 0
         (sort_key start_of [(''CARD'', (3, 8), ''4111111111111111''), (''EMAIL'', (0, 5), ''ab@cd'')]))
       (map mask_of (sort_key start_of [(''CARD'', (3, 8), ''4111111111111111''), (''EMAIL'', (0, 5), ''ab@cd'')]))"
    unfolding s by simp_all
  with s l m c show ?thesis
    by simp
qed

section \<open>Text normalisation\<close>

subsection \<open>Splitting and joining\<close>

lemma split_acc_word:
  "\<forall>c\<in>set w. \<not> isspace c \<Longrightarrow> split_acc w0 (w @ s) = split_acc (w0 @ w) s"
  by (induction w arbitrary: w0) simp_all

lemma split_acc_words:
  "\<forall>c\<in>set w0. \<not> isspace c \<Longrightarrow> w \<in> set (split_acc w0 s) \<Longrightarrow> w \<noteq> [] \<and> (\<forall>c\<in>set w. \<not> isspace c)"
proof (induction s arbitrary: w0)
  case Nil
  then show ?case by (auto split: if_splits)
next
  case (Cons c s)
  show ?case
  proof (cases "isspace c")
    case True
    with Cons.prems have "(w = w0 \<and> w0 \<noteq> []) \<or> w \<in> set (split_acc [] s)"
      by (auto split: if_splits)
    then show ?thesis
    proof
      assume "w = w0 \<and> w0 \<noteq> []"
      with Cons.prems(1) show ?thesis by simp
    next
      assume "w \<in> set (split_acc [] s)"
      with Cons.IH [of "[]"] show ?thesis by simp
    qed
  next
    case False
    with Cons.prems have "w \<in> set (split_acc (w0 @ [c]) s)" "\<forall>x\<in>set (w0 @ [c]). \<not> isspace x"
      by simp_all
    with Cons.IH [of "w0 @ [c]"] show ?thesis by blast
  qed
qed

lemma split_acc_chars: "w \<in> set (split_acc w0 s) \<Longrightarrow> set w \<subseteq> set w0 \<union> set s"
proof (induction s arbitrary: w0)
  case Nil
  then show ?case by (auto split: if_splits)
next
  case (Cons c s)
  show ?case
  proof (cases "isspace c")
    case True
    with Cons.prems have "w = w0 \<or> w \<in> set (split_acc [] s)"
      by (auto split: if_splits)
    with Cons.IH [of "[]"] show ?thesis
      by auto
  next
    case False
    with Cons.prems have "w \<in> set (split_acc (w0 @ [c]) s)"
      by simp
    from Cons.IH [OF this] show ?thesis
      by auto
  qed
qed

lemma isspace_space: "isspace (CHR '' '')"
  by (simp add: isspace_def)

lemma split_join:
  "\<forall>w\<in>set ws. w \<noteq> [] \<and> (\<forall>c\<in>set w. \<not> isspace c) \<Longrightarrow> py_split (py_join '' '' ws) = ws"
proof (induction "'' ''" ws rule: py_join.induct)
  case 1
  show ?case by (simp add: py_split_def)
next
  case (2 w)
  then show ?case
    using split_acc_word [of w "[]" "[]"] by (simp add: py_split_def)
next
  case (3 w v ws)
  then have "py_split (py_join '' '' (v # ws)) = v # ws"
    by simp
  moreover from 3 have "\<forall>c\<in>set w. \<not> isspace c" "w \<noteq> []"
    by simp_all
  ultimately show ?case
    using split_acc_word [of w "[]" "CHR '' '' # py_join '' '' (v # ws)"]
    by (simp add: py_split_def isspace_space)
qed

lemma join_split_again: "py_join '' '' (py_split (py_join '' '' (py_split s))) = py_join '' '' (py_split s)"
proof -
  have "\<forall>w\<in>set (py_split s). w \<noteq> [] \<and> (\<forall>c\<in>set w. \<not> isspace c)"
    using split_acc_words [of "[]" _ s] by (simp add: py_split_def)
  then have "py_split (py_join '' '' (py_split s)) = py_split s"
    by (rule split_join)
  then show ?thesis
    by simp
qed

lemma join_chars: "c \<in> set (py_join '' '' ws) \<Longrightarrow> c = CHR '' '' \<or> (\<exists>w\<in>set ws. c \<in> set w)"
  by (induction "'' ''" ws rule: py_join.induct) auto

lemma length_join_le: "length (py_join '' '' ws) \<le> length (concat ws) + (length ws - 1)"
  by (induction "'' ''" ws rule: py_join.induct) auto

lemma length_split_acc:
  "length (concat (split_acc w0 s)) + length (split_acc w0 s) \<le> Suc (length w0 + length s)"
proof (induction s arbitrary: w0)
  case Nil
  show ?case by simp
next
  case (Cons c s)
  show ?case
    using Cons.IH [of "[]"] Cons.IH [of "w0 @ [c]"] by (auto split: if_splits)
qed

lemma length_join_split: "length (py_join '' '' (py_split s)) \<le> length s"
proof (cases "py_split s")
  case Nil
  then show ?thesis by simp
next
  case (Cons w ws)
  with length_join_le [of "py_split s"] length_split_acc [of "[]" s] show ?thesis
    by (simp add: py_split_def)
qed

subsection \<open>Collapsing repeats\<close>

lemma collapse_repeats_chars: "set (collapse_repeats s) \<subseteq> set s"
proof (induction s rule: collapse_repeats.induct)
  case 1
  show ?case by simp
next
  case (2 c cs)
  have "set (dropWhile (\<lambda>x. x = c) cs) \<subseteq> set cs"
    by (auto dest: set_dropWhileD)
  with 2 show ?case
    by (auto split: if_splits)
qed

lemma run_of_three:
  "2 \<le> length (takeWhile (\<lambda>x. x = c) cs) \<longleftrightarrow> (\<exists>rest. cs = c # c # rest)"
proof (cases cs)
  case Nil
  then show ?thesis by simp
next
  case (Cons a as)
  then show ?thesis
    by (cases as) auto
qed

lemma collapse_repeats_id: "\<not> has_triple s \<Longrightarrow> collapse_repeats s = s"
proof (induction s)
  case Nil
  show ?case by simp
next
  case (Cons c cs)
  from Cons.prems have no_run: "\<not> (\<exists>rest. cs = c # c # rest)" and rest: "\<not> has_triple cs"
    by (cases cs; cases "tl cs"; auto)+
  from no_run have "\<not> 2 \<le> length (takeWhile (\<lambda>x. x = c) cs)"
    by (simp only: run_of_three not_False_eq_True)
  with Cons.IH [OF rest] show ?case
    by simp
qed

lemma length_collapse_repeats: "length (collapse_repeats s) \<le> length s"
proof (induction s rule: collapse_repeats.induct)
  case 1
  show ?case by simp
next
  case (2 c cs)
  have "length (takeWhile (\<lambda>x. x = c) cs) + length (dropWhile (\<lambda>x. x = c) cs) = length cs"
    by (metis length_append takeWhile_dropWhile_id)
  with 2 show ?case
    by (auto split: if_splits)
qed

lemma collapse_repeats_shorter:
  "has_triple s \<Longrightarrow> CHR 0x0A \<notin> set s \<Longrightarrow> length (collapse_repeats s) < length s"
proof (induction s)
  case Nil
  then show ?case by simp
next
  case (Cons c cs)
  have split: "length (takeWhile (\<lambda>x. x = c) cs) + length (dropWhile (\<lambda>x. x = c) cs) = length cs"
    by (metis length_append takeWhile_dropWhile_id)
  show ?case
  proof (cases "2 \<le> length (takeWhile (\<lambda>x. x = c) cs)")
    case True
    moreover have "length (collapse_repeats (dropWhile (\<lambda>x. x = c) cs)) \<le> length (dropWhile (\<lambda>x. x = c) cs)"
      by (rule length_collapse_repeats)
    moreover from Cons.prems(2) have "c \<noteq> CHR 0x0A"
      by auto
    ultimately show ?thesis
      using split by simp
  next
    case False
    then have "\<not> (\<exists>rest. cs = c # c # rest)"
      by (simp only: run_of_three not_False_eq_True)
    with Cons.prems(1) have "has_triple cs"
      by (cases cs; cases "tl cs"; auto)
    with Cons.IH Cons.prems(2) have "length (collapse_repeats cs) < length cs"
      by simp
    with False show ?thesis
      by simp
  qed
qed

subsection \<open>The characters of a normalised text\<close>

lemma isdecimal_digits:
  assumes "isdecimal c"
  shows "c \<in> set ''0123456789''"
proof -
  obtain b0 b1 b2 b3 b4 b5 b6 b7 where c: "c = Char b0 b1 b2 b3 b4 b5 b6 b7"
    by (cases c)
  show ?thesis
    using assms unfolding c isdecimal_def
    by (cases b0; cases b1; cases b2; cases b3; cases b4; cases b5; cases b6; cases b7; simp)
qed

lemma leet_no_key: "map_of LEET_MAP (case map_of LEET_MAP c of None \<Rightarrow> c | Some d \<Rightarrow> d) = None"
  by (simp add: LEET_MAP_def)

lemma kept_is_out:
  assumes "kept_chr c" and "\<not> isspace c" and "map_of LEET_MAP c = None"
  shows "out_chr c"
proof (cases "isdecimal c")
  case True
  from isdecimal_digits [OF this] assms(3) show ?thesis
    by (auto simp add: out_chr_def LEET_MAP_def split: if_splits)
next
  case False
  with assms show ?thesis
    by (auto simp add: out_chr_def kept_chr_def LEET_MAP_def split: if_splits)
qed

lemma lower_case_unchanged:
  assumes "97 \<le> (of_char c :: nat)" and "(of_char c :: nat) \<le> 122"
  shows "of_char c \<notin> set ZERO_WIDTH" and "lower_chr c = c" and "map_of LEET_MAP c = None"
    and "kept_chr c" and "c \<noteq> CHR 0x0A"
proof -
  show "of_char c \<notin> set ZERO_WIDTH"
    using assms(2) by (simp add: ZERO_WIDTH_def)
  show "lower_chr c = c"
    using assms by (simp add: lower_chr_def isupper_def)
  have "c \<noteq> CHR ''0''" "c \<noteq> CHR ''1''" "c \<noteq> CHR ''3''" "c \<noteq> CHR ''4''" "c \<noteq> CHR ''5''"
    "c \<noteq> CHR ''7''" "c \<noteq> CHR ''$''" "c \<noteq> CHR ''@''" "c \<noteq> CHR ''!''"
    using assms(1) by auto
  then show "map_of LEET_MAP c = None"
    by (simp add: LEET_MAP_def)
  show "kept_chr c"
    using assms by (simp add: kept_chr_def)
  show "c \<noteq> CHR 0x0A"
    using assms(1) by auto
qed

lemma listed_unchanged:
  "\<forall>c\<in>set ''2689:,_-.?#% ''. of_char c \<notin> set ZERO_WIDTH \<and> lower_chr c = c \<and>
      map_of LEET_MAP c = None \<and> kept_chr c \<and> c \<noteq> CHR 0x0A"
  by (simp add: ZERO_WIDTH_def lower_chr_tab LEET_MAP_def kept_chr_def isdecimal_tab isspace_tab)

lemma out_chr_unchanged:
  assumes "out_chr c"
  shows "of_char c \<notin> set ZERO_WIDTH" and "lower_chr c = c" and "map_of LEET_MAP c = None"
    and "kept_chr c" and "c \<noteq> CHR 0x0A"
proof -
  from assms have "(97 \<le> (of_char c :: nat) \<and> (of_char c :: nat) \<le> 122) \<or> c \<in> set ''2689:,_-.?#% ''"
    by (auto simp add: out_chr_def)
  then have "of_char c \<notin> set ZERO_WIDTH \<and> lower_chr c = c \<and> map_of LEET_MAP c = None \<and>
      kept_chr c \<and> c \<noteq> CHR 0x0A"
    using lower_case_unchanged [of c] listed_unchanged by blast
  then show "of_char c \<notin> set ZERO_WIDTH" and "lower_chr c = c" and "map_of LEET_MAP c = None"
    and "kept_chr c" and "c \<noteq> CHR 0x0A"
    by simp_all
qed

subsection \<open>A second pass\<close>

lemmas normalize_eval =
  normalize_text_def normalize_str_def plain_libs_def translate_delete_def ZERO_WIDTH_def
  py_lower_def replace_emoji_def translate_map_def LEET_MAP_def drop_other_chars_def kept_chr_def
  py_split_def isspace_tab isdecimal_tab lower_chr_tab


lemma normalize_str_fixed_by_join:
  "py_join '' '' (py_split (normalize_str L s)) = normalize_str L s"
  by (simp add: normalize_str_def Let_def join_split_again)

lemma normalize_str_out: "c \<in> set (normalize_str L s) \<Longrightarrow> out_chr c"
proof -
  let ?s7 = "translate_map LEET_MAP (replace_emoji L (collapse_repeats (py_lower
    (translate_delete ZERO_WIDTH (nfkc L (fix_text L s))))))"
  assume "c \<in> set (normalize_str L s)"
  then have "c \<in> set (py_join '' '' (py_split (drop_other_chars ?s7)))"
    by (simp add: normalize_str_def Let_def)
  from join_chars [OF this] show ?thesis
  proof
    assume "c = CHR '' ''"
    then show ?thesis
      by (simp add: out_chr_def)
  next
    assume "\<exists>w\<in>set (py_split (drop_other_chars ?s7)). c \<in> set w"
    then obtain w where w: "w \<in> set (split_acc [] (drop_other_chars ?s7))" and c: "c \<in> set w"
      by (auto simp add: py_split_def)
    from split_acc_words [OF _ w] c have nospace: "\<not> isspace c"
      by simp
    from split_acc_chars [OF w] c have "c \<in> set (drop_other_chars ?s7)"
      by auto
    then obtain d where d: "d \<in> set ?s7" and cd: "c = (if kept_chr d then d else CHR '' '')"
      by (auto simp add: drop_other_chars_def)
    from cd nospace isspace_space have kept: "kept_chr d" and "c = d"
      by (auto split: if_splits)
    from d obtain e where "d = (case map_of LEET_MAP e of None \<Rightarrow> e | Some r \<Rightarrow> r)"
      by (auto simp add: translate_map_def)
    then have "map_of LEET_MAP d = None"
      by (simp only: leet_no_key)
    with kept nospace \<open>c = d\<close> show ?thesis
      by (simp add: kept_is_out)
  qed
qed

lemma normalize_str_on_out:
  assumes "libs_keep_plain L" and "\<forall>c\<in>set y. out_chr c"
  shows "normalize_str L y = py_join '' '' (py_split (collapse_repeats y))"
proof -
  from assms have 1: "fix_text L y = y" and 2: "nfkc L y = y"
    by (simp_all add: libs_keep_plain_def)
  have 3: "translate_delete ZERO_WIDTH y = y"
    using assms(2) by (simp add: translate_delete_def out_chr_unchanged(1))
  have 4: "py_lower y = y"
    using assms(2) by (simp add: py_lower_def out_chr_unchanged(2) map_idI)
  have out: "\<forall>c\<in>set (collapse_repeats y). out_chr c"
    using assms(2) collapse_repeats_chars [of y] by blast
  with assms(1) have 6: "replace_emoji L (collapse_repeats y) = collapse_repeats y"
    by (simp add: libs_keep_plain_def)
  have 7: "translate_map LEET_MAP (collapse_repeats y) = collapse_repeats y"
    using out by (simp add: translate_map_def out_chr_unchanged(3) map_idI)
  have 8: "drop_other_chars (collapse_repeats y) = collapse_repeats y"
    using out by (simp add: drop_other_chars_def out_chr_unchanged(4) map_idI)
  show ?thesis
    by (simp add: normalize_str_def Let_def 1 2 3 4 6 7 8)
qed

lemma plain_libs_keep_plain: "libs_keep_plain plain_libs"
  by (simp add: libs_keep_plain_def plain_libs_def replace_emoji_def)

lemma o0o_normalized: "normalize_text plain_libs (PyStr ''o0o'') = ''ooo''"
  by (simp add: normalize_eval)

lemma ooo_normalized: "normalize_text plain_libs (PyStr ''ooo'') = ''oo''"
  by (simp add: normalize_eval)

lemma hello_normalized: "normalize_text plain_libs (PyStr ''Heeello  W0rld!'') = ''heello worldi''"
  by (simp add: normalize_eval)

lemma hello_again: "normalize_text plain_libs (PyStr ''heello worldi'') = ''heello worldi''"
  by (simp add: normalize_eval)

text \<open>
  C6, as the claim states it, fails: with the libraries leaving plain text as it is,
  \<open>normalize("o0o")\<close> is \<open>"ooo"\<close>, because the repeats are collapsed before the leetspeak
  step turns \<open>0\<close> into \<open>o\<close>, and \<open>normalize("ooo")\<close> is \<open>"oo"\<close>.
\<close>

theorem normalize_not_idempotent:
  "normalize_text plain_libs (PyStr ''o0o'') = ''ooo'' \<and>
   normalize_text plain_libs (PyStr (normalize_text plain_libs (PyStr ''o0o''))) = ''oo'' \<and>
   normalize_text plain_libs (PyStr (normalize_text plain_libs (PyStr ''o0o'')))
     \<noteq> normalize_text plain_libs (PyStr ''o0o'')"
  by (simp add: o0o_normalized ooo_normalized)

text \<open>
  C6, amended. Where the three libraries leave a normalised text unchanged,
  \<open>normalize(normalize(x)) == normalize(x)\<close> holds exactly for the \<open>x\<close> whose
  normalisation \<open>normalize(x)\<close> has no run of three or more copies of one character;
  for every \<open>x\<close> the second pass does nothing but collapse such runs to two.
\<close>

theorem normalize_idempotent_iff:
  assumes "libs_keep_plain L"
  shows "(normalize_text L (PyStr (normalize_text L x)) = normalize_text L x
            \<longleftrightarrow> \<not> has_triple (normalize_text L x)) \<and>
         normalize_text L (PyStr (normalize_text L x))
           = py_join '' '' (py_split (collapse_repeats (normalize_text L x)))"
proof -
  let ?y = "normalize_str L (py_str x)"
  have out: "\<forall>c\<in>set ?y. out_chr c"
    using normalize_str_out by blast
  have second: "normalize_str L ?y = py_join '' '' (py_split (collapse_repeats ?y))"
    using assms out by (rule normalize_str_on_out)
  have same: "normalize_str L ?y = ?y" if "\<not> has_triple ?y"
    using that second by (simp add: collapse_repeats_id normalize_str_fixed_by_join)
  have differ: "normalize_str L ?y \<noteq> ?y" if "has_triple ?y"
  proof -
    from out have "CHR 0x0A \<notin> set ?y"
      using out_chr_unchanged(5) by blast
    with that have "length (collapse_repeats ?y) < length ?y"
      by (rule collapse_repeats_shorter)
    moreover have "length (normalize_str L ?y) \<le> length (collapse_repeats ?y)"
      unfolding second by (rule length_join_split)
    ultimately show ?thesis
      by auto
  qed
  from same differ second show ?thesis
    by (auto simp add: normalize_text_def)
qed

theorem normalize_idempotent_iff_witness:
  "libs_keep_plain plain_libs \<and>
   \<not> has_triple (normalize_text plain_libs (PyStr ''Heeello  W0rld!'')) \<and>
   normalize_text plain_libs (PyStr ''Heeello  W0rld!'') = ''heello worldi'' \<and>
   normalize_text plain_libs (PyStr (normalize_text plain_libs (PyStr ''Heeello  W0rld!'')))
     = normalize_text plain_libs (PyStr ''Heeello  W0rld!'') \<and>
   has_triple (normalize_text plain_libs (PyStr ''o0o''))"
proof -
  have t: "\<not> has_triple (normalize_text plain_libs (PyStr ''Heeello  W0rld!''))"
    unfolding hello_normalized by simp
  have t': "has_triple (normalize_text plain_libs (PyStr ''o0o''))"
    unfolding o0o_normalized by simp
  from normalize_idempotent_iff [OF plain_libs_keep_plain, of "PyStr ''Heeello  W0rld!''"] t
  have "normalize_text plain_libs (PyStr (normalize_text plain_libs (PyStr ''Heeello  W0rld!'')))
     = normalize_text plain_libs (PyStr ''Heeello  W0rld!'')"
    by blast
  with plain_libs_keep_plain t t' hello_normalized show ?thesis
    by (intro conjI)
qed

section \<open>Input that is not a string\<close>

lemma five_normalized: "normalize_text plain_libs (PyStr ''5'') = ''s''"
  by (simp add: normalize_eval)

lemma five_overrides: "apply_overrides ''5'' p t = (p, t)"
  by (simp add: apply_overrides_def META_PATTERNS_def blocklist_defs safelist_defs rx_eval)

lemma five_pii: "detect_pii None (PyStr ''5'') = []"
  by (simp add: pii_eval rx_eval)

lemma five_scored:
  "score_comment_cascade (example_artifacts False (Fin (90 / 100)) NaN) (PyStr ''5'') =
     (\<lparr>prob_final = Fin (90 / 100), tier = ''HIGH'', pii_hits = [], redacted = PyStr ''5'',
       escalated_to_bert = False\<rparr>, [Baseline ''s''])"
proof -
  have "strip ''5'' \<noteq> []"
    by (simp add: strip_def isspace_tab)
  moreover have "libs (example_artifacts False (Fin (90 / 100)) NaN) = plain_libs"
    by (simp add: example_artifacts_def)
  moreover have "model_stages (example_artifacts False (Fin (90 / 100)) NaN) ''s''
      = (Fin (90 / 100), False, [Baseline ''s''])"
    by (simp add: model_stages_def example_artifacts_def)
  moreover have "initial_tier (example_artifacts False (Fin (90 / 100)) NaN) (Fin (90 / 100)) = ''HIGH''"
    by (simp add: initial_tier_def example_artifacts_def)
  moreover have "phonenumbers (example_artifacts False (Fin (90 / 100)) NaN) = None"
    by (simp add: example_artifacts_def)
  ultimately show ?thesis
    by (simp add: five_normalized five_overrides five_pii redact_def del: detect_pii.simps)
qed

text \<open>
  C10, as the claim states it, fails: the entry point does not turn the integer 5 into
  the text \<open>"5"\<close> and score that. It returns the fixed result with probability 0.0 and
  tier VERY_LOW and calls no model, where the text \<open>"5"\<close> is normalised to \<open>"s"\<close>, scored
  by the baseline model and, with a baseline probability of 0.9, put in tier HIGH.
\<close>

theorem non_string_not_coerced:
  "score_comment_cascade (example_artifacts False (Fin (90 / 100)) NaN) (PyInt 5) =
     (\<lparr>prob_final = Fin 0, tier = ''VERY_LOW'', pii_hits = [], redacted = PyInt 5,
       escalated_to_bert = False\<rparr>, []) \<and>
   score_comment_cascade (example_artifacts False (Fin (90 / 100)) NaN) (PyStr (py_str (PyInt 5))) =
     (\<lparr>prob_final = Fin (90 / 100), tier = ''HIGH'', pii_hits = [], redacted = PyStr ''5'',
       escalated_to_bert = False\<rparr>, [Baseline ''s'']) \<and>
   score_comment_cascade (example_artifacts False (Fin (90 / 100)) NaN) (PyInt 5) \<noteq>
   score_comment_cascade (example_artifacts False (Fin (90 / 100)) NaN) (PyStr (py_str (PyInt 5)))"
proof -
  have "py_str (PyInt 5) = ''5''"
    by simp
  then show ?thesis
    using five_scored by (simp del: score_comment_cascade.simps(1))
qed

text \<open>
  C10, amended. Input that is not a string does not fail and is not coerced at the entry
  point: \<open>score_comment_cascade\<close> returns the fixed result (probability 0.0, tier
  VERY_LOW, no PII hits, the input itself as the redacted value, not escalated) and calls
  no model; \<open>detect_pii\<close> returns no hits for it. \<open>normalize_text\<close> is the function that
  coerces: on input that is not a string it is \<open>normalize_text\<close> of the input's textual
  form.
\<close>

theorem non_string_input:
  assumes "\<not> isinstance_str v"
  shows "score_comment_cascade A v =
           (\<lparr>prob_final = Fin 0, tier = ''VERY_LOW'', pii_hits = [], redacted = v,
             escalated_to_bert = False\<rparr>, []) \<and>
         detect_pii phone v = [] \<and>
         normalize_text L v = normalize_text L (PyStr (py_str v))"
  using assms by (cases v) (simp_all add: normalize_text_def)

theorem non_string_input_witness:
  "\<not> isinstance_str (PyInt 5) \<and>
   score_comment_cascade (example_artifacts True (Fin (30 / 100)) (Fin (90 / 100))) (PyInt 5) =
     (\<lparr>prob_final = Fin 0, tier = ''VERY_LOW'', pii_hits = [], redacted = PyInt 5,
       escalated_to_bert = False\<rparr>, []) \<and>
   detect_pii None (PyInt 5) = [] \<and>
   normalize_text plain_libs (PyInt 5) = ''s''"
proof -
  have h: "\<not> isinstance_str (PyInt 5)"
    by simp
  have "py_str (PyInt 5) = ''5''"
    by simp
  then show ?thesis
    using non_string_input [OF h, of "example_artifacts True (Fin (30 / 100)) (Fin (90 / 100))" None plain_libs]
      five_normalized
    by (simp del: score_comment_cascade.simps detect_pii.simps)
qed


end
